theory Spec2Isabelle
  imports
    Main
    "HOL-Library.Char_ord"
    "HOL-Library.List_Lexorder"
    "HOL-Library.Multiset"
    "HOL-Library.AList"
    "HOL-Library.Finite_Map"
begin

section \<open>Python strings and exceptions\<close>

text \<open>
  Python strings are modelled as \<^typ>\<open>string\<close>. Python orders strings lexicographically by
  code point; the orders on \<^typ>\<open>char\<close> and on lists imported above are that order, so
  Python's \<open>sorted\<close> on strings is \<^const>\<open>sort\<close>.

  Exceptions are values: every \<open>raise\<close> of the source is an \<open>Inl\<close> result. The
  constructor \<open>NonTermination\<close> is not a Python exception: it stands for a call that does
  not return (the \<open>while\<close> loop of \<open>_VarEnv._find\<close> running forever).
\<close>

datatype py_error =
    TypeError string
  | ValueError string
  | AssertionError
  | AttributeError
  | KeyError string
  | MigrationError string
  | NonTermination

text \<open>\<open>sep.join(parts)\<close>\<close>

fun join :: "string \<Rightarrow> string list \<Rightarrow> string" where
  "join sep [] = []"
| "join sep [x] = x"
| "join sep (x # y # ys) = x @ sep @ join sep (y # ys)"

text \<open>\<open>str(n)\<close> for a natural number and for an integer: decimal digits, leading minus sign.\<close>

definition digit_char :: "nat \<Rightarrow> char" where
  "digit_char d = ''0123456789'' ! d"

fun str_nat :: "nat \<Rightarrow> string" where
  "str_nat n = (if n < 10 then [digit_char n] else str_nat (n div 10) @ [digit_char (n mod 10)])"

declare str_nat.simps [simp del]

definition str_int :: "int \<Rightarrow> string" where
  "str_int i = (if i < 0 then CHR ''-'' # str_nat (nat (- i)) else str_nat (nat i))"


section \<open>Migration operations (migrations/operations.py)\<close>

text \<open>
  The eight operation variants. Columns are \<open>(column, datalog type)\<close> pairs, clauses are
  compiled Datalog strings, the index parameters \<open>m\<close>, \<open>ef_construction\<close> and
  \<open>ef_search\<close> are integers.
\<close>

datatype operation =
    CreateRelation string "(string \<times> string) list"
  | DropRelation string "(string \<times> string) list"
  | CreateRule string "string list"
  | DropRule string "string list"
  | ReplaceRule string "string list" "string list"
  | CreateIndex string string string string int int int
  | DropIndex string string string string int int int
  | RunDatalog "string list" "string list"

definition schema_command :: "string \<Rightarrow> (string \<times> string) list \<Rightarrow> string" where
  "schema_command name columns =
     ''+'' @ name @ ''('' @ join '', '' (map (\<lambda>(col, tp). col @ '': '' @ tp) columns) @ '')''"

definition index_create_command ::
  "string \<Rightarrow> string \<Rightarrow> string \<Rightarrow> string \<Rightarrow> int \<Rightarrow> int \<Rightarrow> int \<Rightarrow> string" where
  "index_create_command name relation column metric m efc efs =
     ''.index create '' @ name @ '' on '' @ relation @ ''('' @ column @ '') '' @
     ''type hnsw metric '' @ metric @ '' '' @
     ''m '' @ str_int m @ '' ef_construction '' @ str_int efc @ '' '' @
     ''ef_search '' @ str_int efs"

fun forward_commands :: "operation \<Rightarrow> string list" where
  "forward_commands (CreateRelation name columns) = [schema_command name columns]"
| "forward_commands (DropRelation name columns) = [''.rel drop '' @ name]"
| "forward_commands (CreateRule name clauses) = clauses"
| "forward_commands (DropRule name clauses) = [''.rule drop '' @ name]"
| "forward_commands (ReplaceRule name old_clauses new_clauses) =
     [''.rule drop '' @ name] @ new_clauses"
| "forward_commands (CreateIndex name relation column metric m efc efs) =
     [index_create_command name relation column metric m efc efs]"
| "forward_commands (DropIndex name relation column metric m efc efs) =
     [''.index drop '' @ name]"
| "forward_commands (RunDatalog fwd bwd) = fwd"

fun backward_commands :: "operation \<Rightarrow> string list" where
  "backward_commands (CreateRelation name columns) = [''.rel drop '' @ name]"
| "backward_commands (DropRelation name columns) = [schema_command name columns]"
| "backward_commands (CreateRule name clauses) = [''.rule drop '' @ name]"
| "backward_commands (DropRule name clauses) = clauses"
| "backward_commands (ReplaceRule name old_clauses new_clauses) =
     [''.rule drop '' @ name] @ old_clauses"
| "backward_commands (CreateIndex name relation column metric m efc efs) =
     [''.index drop '' @ name]"
| "backward_commands (DropIndex name relation column metric m efc efs) =
     [index_create_command name relation column metric m efc efs]"
| "backward_commands (RunDatalog fwd bwd) = bwd"


section \<open>Migration recorder (migrations/recorder.py)\<close>

text \<open>
  The knowledge graph is an external collaborator; the recorder and the executor only call
  \<open>kg.execute(text)\<close>. The model keeps what the executor can observe of it: the log of
  every command executed, in order, and the rows \<open>(name, applied_at)\<close> of the reserved
  relation, which the query of \<open>get_applied\<close> returns. The clock read by
  \<open>record_applied\<close> is the function \<open>clock\<close> of the number of readings so far. Calls
  to \<open>execute\<close> are taken to return normally.
\<close>

record kg =
  commands :: "string list"
  rows :: "(string \<times> string) list"
  clock :: "nat \<Rightarrow> string"
  ticks :: nat

definition MIGRATION_RELATION :: string where
  "MIGRATION_RELATION = ''__inputlayer_migrations__''"

definition execute :: "string \<Rightarrow> kg \<Rightarrow> kg" where
  "execute datalog k = k\<lparr>commands := commands k @ [datalog]\<rparr>"

definition ensure_schema :: "kg \<Rightarrow> kg" where
  "ensure_schema k =
     execute (''+'' @ MIGRATION_RELATION @ ''(name: string, applied_at: string)'') k"

text \<open>
  \<open>get_applied\<close>: run the query, then \<open>sorted(str(row[0]) for row in rows)\<close>. The
  function \<open>sorted_row_names\<close> is the second line alone, on the rows returned.
\<close>

definition sorted_row_names :: "(string \<times> string) list \<Rightarrow> string list" where
  "sorted_row_names rs = sort (map fst rs)"

definition get_applied :: "kg \<Rightarrow> string list \<times> kg" where
  "get_applied k =
     (let k1 = execute (''?Name, At <- '' @ MIGRATION_RELATION @ ''(Name, At)'') k
      in (sorted_row_names (rows k1), k1))"

definition record_applied :: "string \<Rightarrow> kg \<Rightarrow> kg" where
  "record_applied name k =
     (let now = clock k (ticks k);
          k1 = execute (''+'' @ MIGRATION_RELATION @ ''('' @ [CHR 0x22] @ name @ [CHR 0x22] @
                        '', '' @ [CHR 0x22] @ now @ [CHR 0x22] @ '')'') k
      in k1\<lparr>rows := rows k1 @ [(name, now)], ticks := Suc (ticks k1)\<rparr>)"

definition record_reverted :: "string \<Rightarrow> kg \<Rightarrow> kg" where
  "record_reverted name k =
     (let k1 = execute (''-'' @ MIGRATION_RELATION @ ''(Name, At) <- '' @
                        MIGRATION_RELATION @ ''(Name, At), Name = '' @
                        [CHR 0x22] @ name @ [CHR 0x22]) k
      in k1\<lparr>rows := filter (\<lambda>r. fst r \<noteq> name) (rows k1)\<rparr>)"


section \<open>Migration executor (migrations/executor.py)\<close>

record migration_info =
  mig_name :: string
  mig_number :: nat
  mig_filename :: string
  mig_dependencies :: "string list"
  mig_operations :: "operation list"

definition apply_migration :: "migration_info \<Rightarrow> kg \<Rightarrow> kg" where
  "apply_migration m k = fold execute (concat (map forward_commands (mig_operations m))) k"

definition revert_migration :: "migration_info \<Rightarrow> kg \<Rightarrow> kg" where
  "revert_migration m k =
     fold execute (concat (map backward_commands (rev (mig_operations m)))) k"

text \<open>
  The \<open>for m in migrations\<close> loop of \<open>migrate\<close>. The two \<open>break\<close> statements are
  the two tests on \<open>target\<close>, in the order of the source: one before the migration is
  applied, one after.
\<close>

fun migrate_loop ::
  "string set \<Rightarrow> string option \<Rightarrow> migration_info list \<Rightarrow> kg \<Rightarrow> string list \<Rightarrow> kg \<times> string list"
where
  "migrate_loop applied target [] k applied_names = (k, applied_names)"
| "migrate_loop applied target (m # ms) k applied_names =
     (if mig_name m \<in> applied then migrate_loop applied target ms k applied_names
      else if target \<noteq> None \<and> Some (mig_name m) = target then (k, applied_names)
      else
        let k1 = apply_migration m k;
            k2 = record_applied (mig_name m) k1;
            applied_names' = applied_names @ [mig_name m]
        in if target \<noteq> None \<and> Some (mig_name m) = target then (k2, applied_names')
           else migrate_loop applied target ms k2 applied_names')"

definition migrate ::
  "kg \<Rightarrow> migration_info list \<Rightarrow> string option \<Rightarrow> py_error + (string list \<times> kg)" where
  "migrate k migrations target =
     (let k1 = ensure_schema k;
          (names, k2) = get_applied k1;
          applied = set names;
          (k3, applied_names) = migrate_loop applied target migrations k2 []
      in Inr (applied_names, k3))"

text \<open>The search for the target index in \<open>revert_to\<close>: the first position whose name matches.\<close>

fun find_target_idx :: "string \<Rightarrow> migration_info list \<Rightarrow> nat option" where
  "find_target_idx target [] = None"
| "find_target_idx target (m # ms) =
     (if mig_name m = target then Some 0
      else map_option Suc (find_target_idx target ms))"

fun revert_loop :: "migration_info list \<Rightarrow> kg \<Rightarrow> string list \<Rightarrow> kg \<times> string list" where
  "revert_loop [] k reverted_names = (k, reverted_names)"
| "revert_loop (m # ms) k reverted_names =
     (let k1 = revert_migration m k;
          k2 = record_reverted (mig_name m) k1
      in revert_loop ms k2 (reverted_names @ [mig_name m]))"

definition revert_to ::
  "kg \<Rightarrow> migration_info list \<Rightarrow> string \<Rightarrow> py_error + (string list \<times> kg)" where
  "revert_to k migrations target =
     (let k1 = ensure_schema k;
          (names, k2) = get_applied k1;
          applied = set names
      in case find_target_idx target migrations of
           None \<Rightarrow> Inl (MigrationError target)
         | Some target_idx \<Rightarrow>
             let to_revert = filter (\<lambda>m. mig_name m \<in> applied)
                               (rev (drop (target_idx + 1) migrations));
                 (k3, reverted_names) = revert_loop to_revert k2 []
             in Inr (reverted_names, k3))"


section \<open>Type registry (types.py)\<close>

text \<open>
  The Python type objects that \<open>python_type_to_datalog\<close> can be given. The seven keys of
  \<open>TYPE_MAP\<close> are constructors of their own; \<open>PyVectorDim n\<close> is the class
  \<open>Vector[n]\<close> that \<open>_VectorMeta.__getitem__\<close> creates (a subclass of \<open>Vector\<close> whose
  \<open>_dim\<close> is \<open>n\<close>), \<open>PyVectorInt8Dim n\<close> likewise; \<open>PySubclass name base\<close> is a
  class declared with the one base \<open>base\<close> that does not override \<open>_dim\<close>;
  \<open>PyClass name\<close> is any other class (\<open>dict\<close>, \<open>bytes\<close>, ...), which derives from
  no key of \<open>TYPE_MAP\<close>; \<open>PyNonClass name\<close> is an annotation that is not a class
  (\<open>Optional[int]\<close>, ...), on which \<open>issubclass\<close> raises \<open>TypeError\<close>.
\<close>

datatype pytype =
    PyBool
  | PyTimestamp
  | PyInt
  | PyFloat
  | PyStr
  | PyVector
  | PyVectorInt8
  | PyVectorDim nat
  | PyVectorInt8Dim nat
  | PySubclass string pytype
  | PyClass string
  | PyNonClass string

text \<open>
  \<open>issubclass(tp, base)\<close> for a class \<open>tp\<close>: \<open>bool\<close> and \<open>Timestamp\<close> derive from
  \<open>int\<close>, a dimensioned vector from its vector class, a declared subclass from its base.
\<close>

fun issubclass :: "pytype \<Rightarrow> pytype \<Rightarrow> bool" where
  "issubclass PyBool base = (base = PyBool \<or> base = PyInt)"
| "issubclass PyTimestamp base = (base = PyTimestamp \<or> base = PyInt)"
| "issubclass (PyVectorDim n) base = (base = PyVectorDim n \<or> base = PyVector)"
| "issubclass (PyVectorInt8Dim n) base = (base = PyVectorInt8Dim n \<or> base = PyVectorInt8)"
| "issubclass (PySubclass name b) base = (base = PySubclass name b \<or> issubclass b base)"
| "issubclass tp base = (base = tp)"

text \<open>
  \<open>isinstance(tp, _VectorMeta) and tp._dim is not None\<close>, with the value of \<open>_dim\<close>:
  the attribute is found on \<open>Vector[n]\<close> and inherited by its subclasses.
\<close>

fun vector_dim :: "pytype \<Rightarrow> nat option" where
  "vector_dim (PyVectorDim n) = Some n"
| "vector_dim (PySubclass name b) = vector_dim b"
| "vector_dim tp = None"

fun vector_int8_dim :: "pytype \<Rightarrow> nat option" where
  "vector_int8_dim (PyVectorInt8Dim n) = Some n"
| "vector_int8_dim (PySubclass name b) = vector_int8_dim b"
| "vector_int8_dim tp = None"

definition TYPE_MAP :: "(pytype \<times> string) list" where
  "TYPE_MAP =
     [(PyBool, ''bool''),
      (PyTimestamp, ''timestamp''),
      (PyInt, ''int''),
      (PyFloat, ''float''),
      (PyStr, ''string''),
      (PyVector, ''vector''),
      (PyVectorInt8, ''vector_int8'')]"

text \<open>
  The \<open>for base_type, name in TYPE_MAP.items()\<close> loop. For an annotation that is not a
  class the \<open>TypeError\<close> of \<open>issubclass\<close> is caught and the loop goes on.
\<close>

fun type_map_loop :: "pytype \<Rightarrow> (pytype \<times> string) list \<Rightarrow> py_error + string" where
  "type_map_loop tp [] = Inl (TypeError ''Unsupported type for InputLayer schema'')"
| "type_map_loop tp ((base_type, name) # rest) =
     (if tp = base_type then Inr name
      else case tp of
             PyNonClass n \<Rightarrow> type_map_loop tp rest
           | _ \<Rightarrow> if issubclass tp base_type \<and> tp \<noteq> base_type then Inr name
                  else type_map_loop tp rest)"

definition python_type_to_datalog :: "pytype \<Rightarrow> py_error + string" where
  "python_type_to_datalog tp =
     (case vector_dim tp of
        Some d \<Rightarrow> Inr (''vector['' @ str_nat d @ '']'')
      | None \<Rightarrow>
          (case vector_int8_dim tp of
             Some d \<Rightarrow> Inr (''vector_int8['' @ str_nat d @ '']'')
           | None \<Rightarrow> type_map_loop tp TYPE_MAP))"


text \<open>
  A type is in the registry when it is a key of \<open>TYPE_MAP\<close> or a class deriving from one
  (the dimensioned vectors derive from \<open>Vector\<close> and \<open>VectorInt8\<close>).
\<close>

fun is_class :: "pytype \<Rightarrow> bool" where
  "is_class (PyNonClass n) = False"
| "is_class tp = True"

definition in_registry :: "pytype \<Rightarrow> bool" where
  "in_registry tp =
     (\<exists>base \<in> set (map fst TYPE_MAP). tp = base \<or> (is_class tp \<and> issubclass tp base))"


section \<open>Model state and autodetector (migrations/state.py, migrations/autodetector.py)\<close>

text \<open>
  An index entry of \<open>ModelState.indexes\<close> is a dictionary with the keys \<open>relation\<close>,
  \<open>column\<close>, \<open>metric\<close>, \<open>m\<close>, \<open>ef_construction\<close> and \<open>ef_search\<close>; a key may be
  absent (a state read back with \<open>from_dict\<close>), so every field is optional. The three
  dictionaries of the state are finite maps: the autodetector reads their key sets and looks
  names up, and never depends on insertion order.
\<close>

record index_info =
  idx_relation :: "string option"
  idx_column :: "string option"
  idx_metric :: "string option"
  idx_m :: "int option"
  idx_ef_construction :: "int option"
  idx_ef_search :: "int option"

record model_state =
  relations :: "(string, (string \<times> string) list) fmap"
  rules :: "(string, string list) fmap"
  indexes :: "(string, index_info) fmap"

text \<open>\<open>d[key]\<close>, raising \<open>KeyError\<close> on a missing key, and \<open>d.get(key, default)\<close>.\<close>

definition subscript :: "('v option) \<Rightarrow> string \<Rightarrow> py_error + 'v" where
  "subscript entry key = (case entry of None \<Rightarrow> Inl (KeyError key) | Some v \<Rightarrow> Inr v)"

definition get_default :: "'v option \<Rightarrow> 'v \<Rightarrow> 'v" where
  "get_default entry d = (case entry of None \<Rightarrow> d | Some v \<Rightarrow> v)"

text \<open>
  A \<open>for name in sorted(names): ops.append(...)\<close> loop whose body may raise: the
  operations each name contributes, in order, up to the first error.
\<close>

fun for_each :: "('a \<Rightarrow> py_error + operation list) \<Rightarrow> 'a list \<Rightarrow> py_error + operation list" where
  "for_each body [] = Inr []"
| "for_each body (x # xs) =
     (case body x of
        Inl e \<Rightarrow> Inl e
      | Inr ops \<Rightarrow> (case for_each body xs of Inl e \<Rightarrow> Inl e | Inr ops' \<Rightarrow> Inr (ops @ ops')))"

fun sequence_ops :: "(py_error + operation list) list \<Rightarrow> py_error + operation list" where
  "sequence_ops [] = Inr []"
| "sequence_ops (r # rs) =
     (case r of
        Inl e \<Rightarrow> Inl e
      | Inr ops \<Rightarrow> (case sequence_ops rs of Inl e \<Rightarrow> Inl e | Inr ops' \<Rightarrow> Inr (ops @ ops')))"

definition drop_index_op :: "string \<Rightarrow> index_info \<Rightarrow> py_error + operation list" where
  "drop_index_op name info =
     (case subscript (idx_relation info) ''relation'' of
        Inl e \<Rightarrow> Inl e
      | Inr rel \<Rightarrow>
          (case subscript (idx_column info) ''column'' of
             Inl e \<Rightarrow> Inl e
           | Inr col \<Rightarrow>
               Inr [DropIndex name rel col
                      (get_default (idx_metric info) ''cosine'')
                      (get_default (idx_m info) 16)
                      (get_default (idx_ef_construction info) 100)
                      (get_default (idx_ef_search info) 50)]))"

definition create_index_op :: "string \<Rightarrow> index_info \<Rightarrow> py_error + operation list" where
  "create_index_op name info =
     (case subscript (idx_relation info) ''relation'' of
        Inl e \<Rightarrow> Inl e
      | Inr rel \<Rightarrow>
          (case subscript (idx_column info) ''column'' of
             Inl e \<Rightarrow> Inl e
           | Inr col \<Rightarrow>
               Inr [CreateIndex name rel col
                      (get_default (idx_metric info) ''cosine'')
                      (get_default (idx_m info) 16)
                      (get_default (idx_ef_construction info) 100)
                      (get_default (idx_ef_search info) 50)]))"

definition detect_changes :: "model_state \<Rightarrow> model_state \<Rightarrow> py_error + operation list" where
  "detect_changes old new =
     (let old_rels = fmdom' (relations old); new_rels = fmdom' (relations new);
          old_rules = fmdom' (rules old); new_rules = fmdom' (rules new);
          old_idxs = fmdom' (indexes old); new_idxs = fmdom' (indexes new)
      in sequence_ops
        [for_each (\<lambda>name.
             case subscript (fmlookup (relations new) name) name of
               Inl e \<Rightarrow> Inl e
             | Inr cols \<Rightarrow> Inr [CreateRelation name cols])
           (sorted_list_of_set (new_rels - old_rels)),
         for_each (\<lambda>name.
             case subscript (fmlookup (relations old) name) name of
               Inl e \<Rightarrow> Inl e
             | Inr old_cols \<Rightarrow>
                 (case subscript (fmlookup (relations new) name) name of
                    Inl e \<Rightarrow> Inl e
                  | Inr new_cols \<Rightarrow>
                      if old_cols \<noteq> new_cols
                      then Inr [DropRelation name old_cols, CreateRelation name new_cols]
                      else Inr []))
           (sorted_list_of_set (old_rels \<inter> new_rels)),
         for_each (\<lambda>name.
             case subscript (fmlookup (rules old) name) name of
               Inl e \<Rightarrow> Inl e
             | Inr clauses \<Rightarrow> Inr [DropRule name clauses])
           (sorted_list_of_set (old_rules - new_rules)),
         for_each (\<lambda>name.
             case subscript (fmlookup (rules old) name) name of
               Inl e \<Rightarrow> Inl e
             | Inr old_clauses \<Rightarrow>
                 (case subscript (fmlookup (rules new) name) name of
                    Inl e \<Rightarrow> Inl e
                  | Inr new_clauses \<Rightarrow>
                      if old_clauses \<noteq> new_clauses
                      then Inr [ReplaceRule name old_clauses new_clauses]
                      else Inr []))
           (sorted_list_of_set (old_rules \<inter> new_rules)),
         for_each (\<lambda>name.
             case subscript (fmlookup (rules new) name) name of
               Inl e \<Rightarrow> Inl e
             | Inr clauses \<Rightarrow> Inr [CreateRule name clauses])
           (sorted_list_of_set (new_rules - old_rules)),
         for_each (\<lambda>name.
             case subscript (fmlookup (relations old) name) name of
               Inl e \<Rightarrow> Inl e
             | Inr cols \<Rightarrow> Inr [DropRelation name cols])
           (sorted_list_of_set (old_rels - new_rels)),
         for_each (\<lambda>name.
             case subscript (fmlookup (indexes old) name) name of
               Inl e \<Rightarrow> Inl e
             | Inr info \<Rightarrow> drop_index_op name info)
           (sorted_list_of_set (old_idxs - new_idxs)),
         for_each (\<lambda>name.
             case subscript (fmlookup (indexes old) name) name of
               Inl e \<Rightarrow> Inl e
             | Inr old_info \<Rightarrow>
                 (case subscript (fmlookup (indexes new) name) name of
                    Inl e \<Rightarrow> Inl e
                  | Inr new_info \<Rightarrow>
                      if old_info \<noteq> new_info
                      then sequence_ops [drop_index_op name old_info, create_index_op name new_info]
                      else Inr []))
           (sorted_list_of_set (old_idxs \<inter> new_idxs)),
         for_each (\<lambda>name.
             case subscript (fmlookup (indexes new) name) name of
               Inl e \<Rightarrow> Inl e
             | Inr info \<Rightarrow> create_index_op name info)
           (sorted_list_of_set (new_idxs - old_idxs))])"


section \<open>Naming (naming module)\<close>

text \<open>
  Identifiers are ASCII. The case conversions of Python (\<open>lower\<close>, \<open>capitalize\<close>) are
  modelled on the ASCII letters and leave every other character unchanged.
\<close>

definition lower_letters :: string where
  "lower_letters = ''abcdefghijklmnopqrstuvwxyz''"

definition upper_letters :: string where
  "upper_letters = ''ABCDEFGHIJKLMNOPQRSTUVWXYZ''"

definition is_upper :: "char \<Rightarrow> bool" where
  "is_upper c = (c \<in> set upper_letters)"

definition is_lower :: "char \<Rightarrow> bool" where
  "is_lower c = (c \<in> set lower_letters)"

definition is_digit :: "char \<Rightarrow> bool" where
  "is_digit c = (c \<in> set ''0123456789'')"

definition to_lower :: "char \<Rightarrow> char" where
  "to_lower c = (case map_of (zip upper_letters lower_letters) c of Some l \<Rightarrow> l | None \<Rightarrow> c)"

definition to_upper :: "char \<Rightarrow> char" where
  "to_upper c = (case map_of (zip lower_letters upper_letters) c of Some u \<Rightarrow> u | None \<Rightarrow> c)"

text \<open>
  \<open>re.sub(r"([A-Z]+)([A-Z][a-z])", r"\1_\2", name)\<close>: scanning from the left, a run of at
  least two capitals followed by a lower-case letter gets an underscore before its last
  capital. The first argument is the run of capitals read so far.
\<close>

fun acronym_pass :: "string \<Rightarrow> string \<Rightarrow> string" where
  "acronym_pass run [] = run"
| "acronym_pass run (c # cs) =
     (if is_upper c then acronym_pass (run @ [c]) cs
      else if is_lower c \<and> 2 \<le> length run
        then butlast run @ ''_'' @ [last run, c] @ acronym_pass [] cs
      else run @ c # acronym_pass [] cs)"

text \<open>
  \<open>re.sub(r"([a-z0-9])([A-Z])", r"\1_\2", s)\<close>: a lower-case letter or digit followed by
  a capital gets an underscore between them; matches do not overlap.
\<close>

fun boundary_pass :: "string \<Rightarrow> string" where
  "boundary_pass (a # b # cs) =
     (if (is_lower a \<or> is_digit a) \<and> is_upper b then a # CHR ''_'' # b # boundary_pass cs
      else a # boundary_pass (b # cs))"
| "boundary_pass cs = cs"

definition camel_to_snake :: "string \<Rightarrow> string" where
  "camel_to_snake name = map to_lower (boundary_pass (acronym_pass [] name))"

text \<open>\<open>name.split("_")\<close>: the pieces between underscores, empty pieces included.\<close>

fun split_on :: "char \<Rightarrow> string \<Rightarrow> string list" where
  "split_on sep [] = [[]]"
| "split_on sep (c # cs) =
     (if c = sep then [] # split_on sep cs
      else (case split_on sep cs of
              [] \<Rightarrow> [[c]]
            | p # ps \<Rightarrow> (c # p) # ps))"

text \<open>\<open>part.capitalize()\<close>: first character upper-cased, the rest lower-cased.\<close>

fun capitalize :: "string \<Rightarrow> string" where
  "capitalize [] = []"
| "capitalize (c # cs) = to_upper c # map to_lower cs"

definition snake_to_camel :: "string \<Rightarrow> string" where
  "snake_to_camel name = concat (map capitalize (split_on CHR ''_'' name))"

definition column_to_variable :: "string \<Rightarrow> string" where
  "column_to_variable column_name = snake_to_camel column_name"


section \<open>Values and expression AST (AST module, compiler.py)\<close>

text \<open>
  The values a \<open>Literal\<close> can carry. A float carries its \<open>repr\<close>, the only thing the
  compiler reads of it. \<open>VList\<close> is a list or a tuple; \<open>VTimestamp\<close> is an instance of
  \<open>Timestamp\<close>, a subclass of \<open>int\<close>; \<open>VObject\<close> is a value of any other type.
\<close>

datatype pyvalue =
    VNone
  | VBool bool
  | VInt int
  | VFloat string
  | VStr string
  | VList "pyvalue list"
  | VTimestamp int
  | VObject string

definition escape_str :: "string \<Rightarrow> string" where
  "escape_str v =
     concat (map (\<lambda>c. if c = CHR 0x22 then [CHR 0x5C, CHR 0x22] else [c])
       (concat (map (\<lambda>c. if c = CHR 0x5C then [CHR 0x5C, CHR 0x5C] else [c]) v)))"

fun compile_value :: "pyvalue \<Rightarrow> py_error + string"
and compile_values :: "pyvalue list \<Rightarrow> py_error + string list" where
  "compile_value VNone = Inr ''null''"
| "compile_value (VBool b) = Inr (if b then ''true'' else ''false'')"
| "compile_value (VInt i) = Inr (str_int i)"
| "compile_value (VTimestamp i) = Inr (str_int i)"
| "compile_value (VFloat r) = Inr r"
| "compile_value (VStr v) = Inr ([CHR 0x22] @ escape_str v @ [CHR 0x22])"
| "compile_value (VList vs) =
     (case compile_values vs of
        Inl e \<Rightarrow> Inl e
      | Inr parts \<Rightarrow> Inr (''['' @ join '', '' parts @ '']''))"
| "compile_value (VObject t) = Inl (TypeError ''Cannot compile value'')"
| "compile_values [] = Inr []"
| "compile_values (v # vs) =
     (case compile_value v of
        Inl e \<Rightarrow> Inl e
      | Inr p \<Rightarrow> (case compile_values vs of Inl e \<Rightarrow> Inl e | Inr ps \<Rightarrow> Inr (p # ps)))"

text \<open>
  The expression nodes. \<open>Column relation name ref_alias\<close>;
  \<open>AggExpr func column params passthrough order_column desc\<close>. \<open>ExprBase\<close> is an
  instance of the base class \<open>Expr\<close> itself, or of a subclass the compiler does not know.
\<close>

datatype expr =
    Column string string "string option"
  | LiteralExpr pyvalue
  | Arithmetic string expr expr
  | FuncCall string "expr list"
  | OrderedColumn expr bool
  | AggExpr string "expr option" "pyvalue list" "expr list" "expr option" bool
  | ExprBase

text \<open>
  The condition nodes. \<open>MatchExpr relation bindings negated\<close>, the bindings in the
  insertion order of the dictionary. \<open>BoolExprBase\<close> is an instance of the base class
  \<open>BoolExpr\<close> itself.
\<close>

datatype bool_expr =
    Comparison string expr expr
  | And bool_expr bool_expr
  | Or bool_expr bool_expr
  | NotExpr bool_expr
  | InExpr expr expr
  | NegatedIn expr expr
  | MatchExpr string "(string \<times> expr) list" bool
  | BoolExprBase


section \<open>Relation metadata (relation.py) and schema compilation\<close>

text \<open>
  A \<open>Relation\<close> subclass: its class name, the value of \<open>__relation_name__\<close>, and its
  fields with their annotated types, in declaration order.
\<close>

record relation_cls =
  cls_name :: string
  relation_name_attr :: "string option"
  model_fields :: "(string \<times> pytype) list"

definition resolve_name :: "relation_cls \<Rightarrow> string" where
  "resolve_name cls =
     (case relation_name_attr cls of Some rn \<Rightarrow> rn | None \<Rightarrow> camel_to_snake (cls_name cls))"

definition get_columns :: "relation_cls \<Rightarrow> string list" where
  "get_columns cls = map fst (model_fields cls)"

definition get_column_types :: "relation_cls \<Rightarrow> string \<rightharpoonup> pytype" where
  "get_column_types cls = map_of (model_fields cls)"

text \<open>The loop of \<open>compile_schema\<close> that builds \<open>parts\<close>.\<close>

fun schema_parts :: "(string \<rightharpoonup> pytype) \<Rightarrow> string list \<Rightarrow> py_error + string list" where
  "schema_parts col_types [] = Inr []"
| "schema_parts col_types (col # cols) =
     (case subscript (col_types col) col of
        Inl e \<Rightarrow> Inl e
      | Inr tp \<Rightarrow>
          (case python_type_to_datalog tp of
             Inl e \<Rightarrow> Inl e
           | Inr dl_type \<Rightarrow>
               (case schema_parts col_types cols of
                  Inl e \<Rightarrow> Inl e
                | Inr parts \<Rightarrow> Inr ((col @ '': '' @ dl_type) # parts))))"

definition compile_schema :: "relation_cls \<Rightarrow> py_error + string" where
  "compile_schema cls =
     (let name = resolve_name cls;
          columns = get_columns cls;
          col_types = get_column_types cls
      in case schema_parts col_types columns of
           Inl e \<Rightarrow> Inl e
         | Inr parts \<Rightarrow> Inr (''+'' @ name @ ''('' @ join '', '' parts @ '')''))"


section \<open>Variable environment (class VarEnv of compiler.py)\<close>

text \<open>
  The three attributes of the environment. The two dictionaries are association lists in
  insertion order; \<open>d[k] = v\<close> is \<^const>\<open>AList.update\<close>, \<open>d.get(k)\<close> is
  \<^const>\<open>map_of\<close>.
\<close>

record var_env =
  env_map :: "(string \<times> string) list"
  env_counter :: nat
  env_parent :: "(string \<times> string) list"

definition empty_env :: var_env where
  "empty_env = \<lparr>env_map = [], env_counter = 0, env_parent = []\<rparr>"

text \<open>\<open>self._parent.get(key, key)\<close>\<close>

definition parent_get :: "(string \<times> string) list \<Rightarrow> string \<Rightarrow> string" where
  "parent_get par key = (case map_of par key of Some p \<Rightarrow> p | None \<Rightarrow> key)"

text \<open>
  The \<open>while\<close> loop of \<open>_find\<close>, with path halving. It returns the parent dictionary as
  the loop leaves it and the root; \<open>None\<close> is a loop that never ends.
\<close>

partial_function (option) find_loop ::
  "(string \<times> string) list \<Rightarrow> string \<Rightarrow> ((string \<times> string) list \<times> string) option" where
  "find_loop par key =
     (if parent_get par key \<noteq> key
      then find_loop (AList.update key (parent_get par (parent_get par key)) par)
                     (parent_get par (parent_get par key))
      else Some (par, key))"

declare find_loop.simps [code]

definition VarEnv_find :: "string \<Rightarrow> var_env \<Rightarrow> py_error + (string \<times> var_env)" where
  "VarEnv_find key env =
     (case find_loop (env_parent env) key of
        None \<Rightarrow> Inl NonTermination
      | Some (par, root) \<Rightarrow> Inr (root, env\<lparr>env_parent := par\<rparr>))"

definition VarEnv_union :: "string \<Rightarrow> string \<Rightarrow> var_env \<Rightarrow> py_error + var_env" where
  "VarEnv_union a b env =
     (case VarEnv_find a env of
        Inl e \<Rightarrow> Inl e
      | Inr (ra, env1) \<Rightarrow>
          (case VarEnv_find b env1 of
             Inl e \<Rightarrow> Inl e
           | Inr (rb, env2) \<Rightarrow>
               if ra \<noteq> rb
               then Inr (env2\<lparr>env_parent := AList.update rb ra (env_parent env2)\<rparr>)
               else Inr env2))"

text \<open>
  \<open>f"{col.ref_alias or col.relation}.{col.name}"\<close>. An empty alias is falsy, like
  \<open>None\<close>.
\<close>

definition column_key :: "string \<Rightarrow> string \<Rightarrow> string option \<Rightarrow> string" where
  "column_key relation name ref_alias =
     (case ref_alias of
        Some a \<Rightarrow> (if a \<noteq> [] then a else relation)
      | None \<Rightarrow> relation) @ ''.'' @ name"

text \<open>
  The common end of \<open>get_var\<close> and \<open>unify\<close>, from \<open>if root in self._map\<close> on: return
  the variable of the root, or name the root after the column, with the suffix \<open>_N\<close> when
  the name is already the variable of another key.
\<close>

definition bind_root :: "string \<Rightarrow> string \<Rightarrow> var_env \<Rightarrow> string \<times> var_env" where
  "bind_root root col_name env =
     (case map_of (env_map env) root of
        Some v \<Rightarrow> (v, env)
      | None \<Rightarrow>
          let var = column_to_variable col_name;
              used_vars = set (map snd (env_map env))
          in if var \<in> used_vars
             then let c = env_counter env + 1;
                      var' = var @ ''_'' @ str_nat c
                  in (var', env\<lparr>env_map := AList.update root var' (env_map env),
                                 env_counter := c\<rparr>)
             else (var, env\<lparr>env_map := AList.update root var (env_map env)\<rparr>))"

text \<open>
  \<open>get_var\<close>, \<open>unify\<close> and \<open>lookup\<close>. An argument that is not a \<open>Column\<close> has no
  attribute \<open>ref_alias\<close>: the first line of each method raises \<open>AttributeError\<close>.
\<close>

fun VarEnv_get_var :: "expr \<Rightarrow> var_env \<Rightarrow> py_error + (string \<times> var_env)" where
  "VarEnv_get_var (Column relation name ref_alias) env =
     (case VarEnv_find (column_key relation name ref_alias) env of
        Inl e \<Rightarrow> Inl e
      | Inr (root, env1) \<Rightarrow> Inr (bind_root root name env1))"
| "VarEnv_get_var col env = Inl AttributeError"

fun VarEnv_unify :: "expr \<Rightarrow> expr \<Rightarrow> var_env \<Rightarrow> py_error + (string \<times> var_env)" where
  "VarEnv_unify (Column rel_a name_a alias_a) (Column rel_b name_b alias_b) env =
     (let key_a = column_key rel_a name_a alias_a;
          key_b = column_key rel_b name_b alias_b
      in case VarEnv_union key_a key_b env of
           Inl e \<Rightarrow> Inl e
         | Inr env1 \<Rightarrow>
             (case VarEnv_find key_a env1 of
                Inl e \<Rightarrow> Inl e
              | Inr (root, env2) \<Rightarrow> Inr (bind_root root name_a env2)))"
| "VarEnv_unify col_a col_b env = Inl AttributeError"

fun VarEnv_lookup :: "expr \<Rightarrow> var_env \<Rightarrow> py_error + (string option \<times> var_env)" where
  "VarEnv_lookup (Column relation name ref_alias) env =
     (case VarEnv_find (column_key relation name ref_alias) env of
        Inl e \<Rightarrow> Inl e
      | Inr (root, env1) \<Rightarrow> Inr (map_of (env_map env1) root, env1))"
| "VarEnv_lookup col env = Inl AttributeError"


section \<open>Expression and condition compilation (compiler.py)\<close>

fun is_column :: "expr \<Rightarrow> bool" where
  "is_column (Column relation name ref_alias) = True"
| "is_column e = False"

definition direction_suffix :: "bool \<Rightarrow> string" where
  "direction_suffix descending = (if descending then '':desc'' else '':asc'')"

text \<open>
  \<open>compile_expr\<close> and \<open>_compile_agg_expr\<close> (the \<open>AggExpr\<close> equation);
  \<open>compile_exprs\<close> is the left-to-right compilation of a tuple of expressions that the
  generator expressions and \<open>for\<close> loops of the source perform.
\<close>

fun compile_expr :: "expr \<Rightarrow> var_env \<Rightarrow> py_error + (string \<times> var_env)"
and compile_exprs :: "expr list \<Rightarrow> var_env \<Rightarrow> py_error + (string list \<times> var_env)" where
  "compile_expr (Column relation name ref_alias) env =
     VarEnv_get_var (Column relation name ref_alias) env"
| "compile_expr (LiteralExpr v) env =
     (case compile_value v of Inl e \<Rightarrow> Inl e | Inr s \<Rightarrow> Inr (s, env))"
| "compile_expr (Arithmetic op l r) env =
     (case compile_expr l env of
        Inl e \<Rightarrow> Inl e
      | Inr (left, env1) \<Rightarrow>
          (case compile_expr r env1 of
             Inl e \<Rightarrow> Inl e
           | Inr (right, env2) \<Rightarrow> Inr (left @ '' '' @ op @ '' '' @ right, env2)))"
| "compile_expr (FuncCall name args) env =
     (case compile_exprs args env of
        Inl e \<Rightarrow> Inl e
      | Inr (parts, env1) \<Rightarrow> Inr (name @ ''('' @ join '', '' parts @ '')'', env1))"
| "compile_expr (OrderedColumn column descending) env =
     (case compile_expr column env of
        Inl e \<Rightarrow> Inl e
      | Inr (var, env1) \<Rightarrow> Inr (var @ direction_suffix descending, env1))"
| "compile_expr (AggExpr func column params passthrough order_column desc) env =
     (case compile_values params of
        Inl e \<Rightarrow> Inl e
      | Inr param_parts \<Rightarrow>
          (case compile_exprs passthrough env of
             Inl e \<Rightarrow> Inl e
           | Inr (pt_parts, env1) \<Rightarrow>
               (case order_column of
                  Some oc \<Rightarrow>
                    (case compile_expr oc env1 of
                       Inl e \<Rightarrow> Inl e
                     | Inr (order_var, env2) \<Rightarrow>
                         Inr (func @ ''<'' @
                              join '', '' (param_parts @ pt_parts @
                                           [order_var @ direction_suffix desc]) @ ''>'', env2))
                | None \<Rightarrow>
                    (case column of
                       Some c \<Rightarrow>
                         (case compile_expr c env1 of
                            Inl e \<Rightarrow> Inl e
                          | Inr (col_var, env2) \<Rightarrow>
                              Inr (func @ ''<'' @
                                   join '', '' (param_parts @ pt_parts @ [col_var]) @ ''>'', env2))
                     | None \<Rightarrow>
                         Inr (func @ ''<'' @ join '', '' (param_parts @ pt_parts) @ ''>'',
                              env1)))))"
| "compile_expr ExprBase env = Inl (TypeError ''Cannot compile expression'')"
| "compile_exprs [] env = Inr ([], env)"
| "compile_exprs (a # as) env =
     (case compile_expr a env of
        Inl e \<Rightarrow> Inl e
      | Inr (part, env1) \<Rightarrow>
          (case compile_exprs as env1 of
             Inl e \<Rightarrow> Inl e
           | Inr (parts, env2) \<Rightarrow> Inr (part # parts, env2)))"

text \<open>
  \<open>_compile_comparison\<close>: an equality between two columns unifies them and yields the
  empty string; any other comparison yields \<open>left op right\<close>.
\<close>

definition compile_comparison ::
  "string \<Rightarrow> expr \<Rightarrow> expr \<Rightarrow> var_env \<Rightarrow> py_error + (string \<times> var_env)" where
  "compile_comparison op left right env =
     (if op = ''='' \<and> is_column left \<and> is_column right
      then (case VarEnv_unify left right env of
              Inl e \<Rightarrow> Inl e
            | Inr (v, env1) \<Rightarrow> Inr ([], env1))
      else (case compile_expr left env of
              Inl e \<Rightarrow> Inl e
            | Inr (l, env1) \<Rightarrow>
                (case compile_expr right env1 of
                   Inl e \<Rightarrow> Inl e
                 | Inr (r, env2) \<Rightarrow> Inr (l @ '' '' @ op @ '' '' @ r, env2))))"

fun column_relation :: "expr \<Rightarrow> string" where
  "column_relation (Column relation name ref_alias) = relation"
| "column_relation e = []"

text \<open>\<open>_compile_in\<close>, with its \<open>assert isinstance(expr.target_column, AstColumn)\<close>.\<close>

definition compile_in ::
  "expr \<Rightarrow> expr \<Rightarrow> bool \<Rightarrow> var_env \<Rightarrow> py_error + (string \<times> var_env)" where
  "compile_in column target_column negated env =
     (case compile_expr column env of
        Inl e \<Rightarrow> Inl e
      | Inr (src_var, env1) \<Rightarrow>
          if \<not> is_column target_column then Inl AssertionError
          else
            (case VarEnv_get_var target_column env1 of
               Inl e \<Rightarrow> Inl e
             | Inr (tgt_var0, env2) \<Rightarrow>
                 (case VarEnv_unify column target_column env2 of
                    Inl e \<Rightarrow> Inl e
                  | Inr (v, env3) \<Rightarrow>
                      (case VarEnv_get_var target_column env3 of
                         Inl e \<Rightarrow> Inl e
                       | Inr (tgt_var, env4) \<Rightarrow>
                           Inr ((if negated then ''!'' else []) @
                                column_relation target_column @
                                ''(..., '' @ tgt_var @ '', ...)'', env4)))))"

text \<open>\<open>_compile_match\<close>\<close>

definition compile_match ::
  "string \<Rightarrow> (string \<times> expr) list \<Rightarrow> bool \<Rightarrow> var_env \<Rightarrow> py_error + (string \<times> var_env)" where
  "compile_match relation bindings negated env =
     (case compile_exprs (map snd bindings) env of
        Inl e \<Rightarrow> Inl e
      | Inr (parts, env1) \<Rightarrow>
          Inr ((if negated then ''!'' else []) @ relation @
               ''('' @ join '', '' parts @ '')'', env1))"

fun compile_bool_expr :: "bool_expr \<Rightarrow> var_env \<Rightarrow> py_error + (string list \<times> var_env)" where
  "compile_bool_expr (Comparison op left right) env =
     (case compile_comparison op left right env of
        Inl e \<Rightarrow> Inl e
      | Inr (lit, env1) \<Rightarrow> Inr ([lit], env1))"
| "compile_bool_expr (And left right) env =
     (case compile_bool_expr left env of
        Inl e \<Rightarrow> Inl e
      | Inr (ls, env1) \<Rightarrow>
          (case compile_bool_expr right env1 of
             Inl e \<Rightarrow> Inl e
           | Inr (rs, env2) \<Rightarrow> Inr (ls @ rs, env2)))"
| "compile_bool_expr (Or left right) env =
     Inl (ValueError ''OR conditions require query splitting. Use compile_or_branches() instead.'')"
| "compile_bool_expr (NotExpr operand) env =
     (case compile_bool_expr operand env of
        Inl e \<Rightarrow> Inl e
      | Inr (inner_parts, env1) \<Rightarrow> Inr ([''!('' @ join '', '' inner_parts @ '')''], env1))"
| "compile_bool_expr (InExpr column target_column) env =
     (case compile_in column target_column False env of
        Inl e \<Rightarrow> Inl e
      | Inr (lit, env1) \<Rightarrow> Inr ([lit], env1))"
| "compile_bool_expr (NegatedIn column target_column) env =
     (case compile_in column target_column True env of
        Inl e \<Rightarrow> Inl e
      | Inr (lit, env1) \<Rightarrow> Inr ([lit], env1))"
| "compile_bool_expr (MatchExpr relation bindings negated) env =
     (case compile_match relation bindings negated env of
        Inl e \<Rightarrow> Inl e
      | Inr (lit, env1) \<Rightarrow> Inr ([lit], env1))"
| "compile_bool_expr BoolExprBase env = Inl (TypeError ''Cannot compile boolean expression'')"

fun compile_or_branches ::
  "bool_expr \<Rightarrow> var_env \<Rightarrow> py_error + (string list list \<times> var_env)" where
  "compile_or_branches (Or left right) env =
     (case compile_or_branches left env of
        Inl e \<Rightarrow> Inl e
      | Inr (left_branches, env1) \<Rightarrow>
          (case compile_or_branches right env1 of
             Inl e \<Rightarrow> Inl e
           | Inr (right_branches, env2) \<Rightarrow> Inr (left_branches @ right_branches, env2)))"
| "compile_or_branches expr env =
     (case compile_bool_expr expr env of
        Inl e \<Rightarrow> Inl e
      | Inr (parts, env1) \<Rightarrow> Inr ([parts], env1))"

text \<open>\<open>_has_or\<close> and \<open>_process_join_condition\<close>.\<close>

fun has_or :: "bool_expr \<Rightarrow> bool" where
  "has_or (Or left right) = True"
| "has_or (And left right) = (has_or left \<or> has_or right)"
| "has_or (NotExpr operand) = has_or operand"
| "has_or expr = False"

fun process_join_condition :: "bool_expr \<Rightarrow> var_env \<Rightarrow> py_error + var_env" where
  "process_join_condition (Comparison op left right) env =
     (if op = ''='' \<and> is_column left \<and> is_column right
      then (case VarEnv_unify left right env of
              Inl e \<Rightarrow> Inl e
            | Inr (v, env1) \<Rightarrow> Inr env1)
      else Inr env)"
| "process_join_condition (And left right) env =
     (case process_join_condition left env of
        Inl e \<Rightarrow> Inl e
      | Inr env1 \<Rightarrow> process_join_condition right env1)"
| "process_join_condition condition env = Inr env"


section \<open>Statement compilation (compiler.py)\<close>

text \<open>
  The arguments of \<open>compile_query\<close>. An entry of \<open>relations\<close> is a \<open>RelationRef\<close>
  (a relation class with an alias), a relation class, or anything else, which the source
  skips; an entry of \<open>select\<close> is a relation class or an expression. The result is one
  string, or a list of strings when the where-condition is split.
\<close>

datatype relation_item = RelationRef relation_cls string | RelationClass relation_cls | OtherItem

datatype select_item = SelectRelation relation_cls | SelectExpr expr

datatype query_result = QueryStr string | QueryList "string list"

type_synonym relation_entry = "string \<times> relation_cls \<times> string option"

fun relation_entries :: "relation_item list \<Rightarrow> relation_entry list" where
  "relation_entries [] = []"
| "relation_entries (RelationRef cls alias # rs) =
     (resolve_name cls, cls, Some alias) # relation_entries rs"
| "relation_entries (RelationClass cls # rs) =
     (resolve_name cls, cls, None) # relation_entries rs"
| "relation_entries (OtherItem # rs) = relation_entries rs"

text \<open>\<open>env.get_var\<close> on each column of a list, in order.\<close>

fun get_vars :: "expr list \<Rightarrow> var_env \<Rightarrow> py_error + (string list \<times> var_env)" where
  "get_vars [] env = Inr ([], env)"
| "get_vars (c # cs) env =
     (case VarEnv_get_var c env of
        Inl e \<Rightarrow> Inl e
      | Inr (var, env1) \<Rightarrow>
          (case get_vars cs env1 of
             Inl e \<Rightarrow> Inl e
           | Inr (vars, env2) \<Rightarrow> Inr (var # vars, env2)))"

text \<open>
  The body atom of one relation: for each column the variable \<open>env.lookup\<close> finds, or
  \<open>_\<close>; and the loop over all relations.
\<close>

fun atom_parts :: "expr list \<Rightarrow> var_env \<Rightarrow> py_error + (string list \<times> var_env)" where
  "atom_parts [] env = Inr ([], env)"
| "atom_parts (c # cs) env =
     (case VarEnv_lookup c env of
        Inl e \<Rightarrow> Inl e
      | Inr (var, env1) \<Rightarrow>
          (case atom_parts cs env1 of
             Inl e \<Rightarrow> Inl e
           | Inr (parts, env2) \<Rightarrow>
               Inr ((case var of Some v \<Rightarrow> v | None \<Rightarrow> ''_'') # parts, env2)))"

fun build_body_atoms :: "relation_entry list \<Rightarrow> var_env \<Rightarrow> py_error + (string list \<times> var_env)"
where
  "build_body_atoms [] env = Inr ([], env)"
| "build_body_atoms ((rn, cls, alias) # rs) env =
     (case atom_parts (map (\<lambda>col. Column rn col alias) (get_columns cls)) env of
        Inl e \<Rightarrow> Inl e
      | Inr (parts, env1) \<Rightarrow>
          (case build_body_atoms rs env1 of
             Inl e \<Rightarrow> Inl e
           | Inr (atoms, env2) \<Rightarrow>
               Inr ((rn @ ''('' @ join '', '' parts @ '')'') # atoms, env2)))"

text \<open>The \<open>limit(N)\<close> or \<open>limit(N, M)\<close> literal appended to a body, if a limit is set.\<close>

definition limit_parts :: "int option \<Rightarrow> int option \<Rightarrow> string list" where
  "limit_parts limit offset =
     (case limit of
        None \<Rightarrow> []
      | Some l \<Rightarrow>
          (case offset of
             Some off \<Rightarrow> [''limit('' @ str_int l @ '', '' @ str_int off @ '')'']
           | None \<Rightarrow> [''limit('' @ str_int l @ '')'']))"

text \<open>\<open>[p for p in parts if p]\<close>\<close>

definition non_empty :: "string list \<Rightarrow> string list" where
  "non_empty parts = filter (\<lambda>p. p \<noteq> []) parts"

fun is_agg :: "expr \<Rightarrow> bool" where
  "is_agg (AggExpr func column params passthrough order_column desc) = True"
| "is_agg e = False"

fun select_is_agg :: "select_item \<Rightarrow> bool" where
  "select_is_agg (SelectExpr e) = is_agg e"
| "select_is_agg s = False"

text \<open>
  \<open>_compile_agg_query\<close>: the loop over \<open>select\<close> and the loop over \<open>computed\<close>, each
  filling \<open>head_parts\<close> and \<open>agg_parts\<close>.
\<close>

fun agg_select_loop ::
  "select_item list \<Rightarrow> var_env \<Rightarrow> py_error + (string list \<times> string list \<times> var_env)" where
  "agg_select_loop [] env = Inr ([], [], env)"
| "agg_select_loop (SelectRelation cls # ss) env =
     (case get_vars (map (\<lambda>col. Column (resolve_name cls) col None) (get_columns cls)) env of
        Inl e \<Rightarrow> Inl e
      | Inr (vars, env1) \<Rightarrow>
          (case agg_select_loop ss env1 of
             Inl e \<Rightarrow> Inl e
           | Inr (head_parts, agg_parts, env2) \<Rightarrow> Inr (vars @ head_parts, agg_parts, env2)))"
| "agg_select_loop (SelectExpr s # ss) env =
     (if is_agg s then
        (case compile_expr s env of
           Inl e \<Rightarrow> Inl e
         | Inr (a, env1) \<Rightarrow>
             (case agg_select_loop ss env1 of
                Inl e \<Rightarrow> Inl e
              | Inr (head_parts, agg_parts, env2) \<Rightarrow> Inr (head_parts, a # agg_parts, env2)))
      else if is_column s then
        (case VarEnv_get_var s env of
           Inl e \<Rightarrow> Inl e
         | Inr (v, env1) \<Rightarrow>
             (case agg_select_loop ss env1 of
                Inl e \<Rightarrow> Inl e
              | Inr (head_parts, agg_parts, env2) \<Rightarrow> Inr (v # head_parts, agg_parts, env2)))
      else agg_select_loop ss env)"

fun agg_computed_loop ::
  "(string \<times> expr) list \<Rightarrow> var_env \<Rightarrow> py_error + (string list \<times> string list \<times> var_env)" where
  "agg_computed_loop [] env = Inr ([], [], env)"
| "agg_computed_loop ((alias_name, ex) # cs) env =
     (case compile_expr ex env of
        Inl e \<Rightarrow> Inl e
      | Inr (c, env1) \<Rightarrow>
          (case agg_computed_loop cs env1 of
             Inl e \<Rightarrow> Inl e
           | Inr (head_parts, agg_parts, env2) \<Rightarrow>
               if is_agg ex then Inr (head_parts, c # agg_parts, env2)
               else Inr (c # head_parts, agg_parts, env2)))"

definition query_text :: "string \<Rightarrow> string list \<Rightarrow> string" where
  "query_text head_str all_body =
     (if all_body \<noteq> [] then ''?'' @ head_str @ '' <- '' @ join '', '' all_body
      else ''?'' @ head_str)"

definition compile_agg_query ::
  "select_item list \<Rightarrow> var_env \<Rightarrow> relation_entry list \<Rightarrow> string list \<Rightarrow>
   string list list option \<Rightarrow> expr option \<Rightarrow> int option \<Rightarrow> int option \<Rightarrow>
   (string \<times> expr) list \<Rightarrow> py_error + string" where
  "compile_agg_query select env all_relations where_parts or_branches order_by limit offset
     computed =
     (case agg_select_loop select env of
        Inl e \<Rightarrow> Inl e
      | Inr (head1, agg1, env1) \<Rightarrow>
          (case agg_computed_loop computed env1 of
             Inl e \<Rightarrow> Inl e
           | Inr (head2, agg2, env2) \<Rightarrow>
               (case build_body_atoms all_relations env2 of
                  Inl e \<Rightarrow> Inl e
                | Inr (body_atoms, env3) \<Rightarrow>
                    let all_body = body_atoms @ where_parts @ limit_parts limit offset;
                        all_head = (head1 @ head2) @ (agg1 @ agg2);
                        head_str = join '', '' all_head
                    in Inr (query_text head_str all_body))))"

text \<open>
  The loop of \<open>compile_query\<close> over the fully selected relations: the variable of every
  column goes to the head, and the relation joins \<open>all_relations\<close> unless an entry with
  the same name and alias is there.
\<close>

fun full_relations_loop ::
  "relation_entry list \<Rightarrow> string list \<Rightarrow> relation_entry list \<Rightarrow> var_env \<Rightarrow>
   py_error + (string list \<times> relation_entry list \<times> var_env)" where
  "full_relations_loop [] head_parts all_relations env = Inr (head_parts, all_relations, env)"
| "full_relations_loop ((rn, cls, alias) # fs) head_parts all_relations env =
     (case get_vars (map (\<lambda>col. Column rn col alias) (get_columns cls)) env of
        Inl e \<Rightarrow> Inl e
      | Inr (vars, env1) \<Rightarrow>
          full_relations_loop fs (head_parts @ vars)
            (if \<not> list_ex (\<lambda>r. fst r = rn \<and> snd (snd r) = alias) all_relations
             then all_relations @ [(rn, cls, alias)] else all_relations)
            env1)"

fun selected_relations :: "select_item list \<Rightarrow> relation_entry list" where
  "selected_relations [] = []"
| "selected_relations (SelectRelation cls # ss) =
     (resolve_name cls, cls, None) # selected_relations ss"
| "selected_relations (SelectExpr e # ss) = selected_relations ss"

fun selected_columns :: "select_item list \<Rightarrow> expr list" where
  "selected_columns [] = []"
| "selected_columns (SelectExpr e # ss) =
     (if is_column e then e # selected_columns ss else selected_columns ss)"
| "selected_columns (SelectRelation cls # ss) = selected_columns ss"

text \<open>
  The ordering step: the first head item equal to the order variable gets the direction
  suffix. An \<open>order_by\<close> that is neither an \<open>OrderedColumn\<close> nor a \<open>Column\<close> is ignored.
\<close>

fun replace_first :: "string \<Rightarrow> string \<Rightarrow> string list \<Rightarrow> string list" where
  "replace_first order_var new [] = []"
| "replace_first order_var new (hp # hps) =
     (if hp = order_var then new # hps else hp # replace_first order_var new hps)"

fun apply_order_by ::
  "expr option \<Rightarrow> string list \<Rightarrow> var_env \<Rightarrow> py_error + (string list \<times> var_env)" where
  "apply_order_by (Some (OrderedColumn column descending)) head_parts env =
     (case compile_expr column env of
        Inl e \<Rightarrow> Inl e
      | Inr (order_var, env1) \<Rightarrow>
          Inr (replace_first order_var (order_var @ direction_suffix descending) head_parts, env1))"
| "apply_order_by (Some (Column relation name ref_alias)) head_parts env =
     (case VarEnv_get_var (Column relation name ref_alias) env of
        Inl e \<Rightarrow> Inl e
      | Inr (order_var, env1) \<Rightarrow>
          Inr (replace_first order_var (order_var @ '':asc'') head_parts, env1))"
| "apply_order_by order_by head_parts env = Inr (head_parts, env)"

text \<open>
  The final loop of \<open>compile_query\<close> over the OR branches: one query string per branch,
  each with the body atoms, the non-empty literals of the branch and the limit literal.
\<close>

definition branch_queries ::
  "string \<Rightarrow> string list \<Rightarrow> int option \<Rightarrow> int option \<Rightarrow> string list list \<Rightarrow> string list" where
  "branch_queries head_str body_atoms limit offset or_branches =
     map (\<lambda>branch_parts.
            ''?'' @ head_str @ '' <- '' @
            join '', '' ((body_atoms @ non_empty branch_parts) @ limit_parts limit offset))
         or_branches"

text \<open>
  The where-condition step of \<open>compile_query\<close>: the literals of the single branch, or
  the list of branches when the condition contains an \<open>Or\<close>.
\<close>

definition compile_where ::
  "bool_expr option \<Rightarrow> var_env \<Rightarrow>
   py_error + (string list \<times> string list list option \<times> var_env)" where
  "compile_where where_condition env =
     (case where_condition of
        None \<Rightarrow> Inr ([], None, env)
      | Some w \<Rightarrow>
          if has_or w then
            (case compile_or_branches w env of
               Inl e \<Rightarrow> Inl e
             | Inr (branches, env1) \<Rightarrow> Inr ([], Some branches, env1))
          else
            (case compile_bool_expr w env of
               Inl e \<Rightarrow> Inl e
             | Inr (parts, env1) \<Rightarrow> Inr (non_empty parts, None, env1)))"

definition compile_query ::
  "select_item list \<Rightarrow> relation_item list option \<Rightarrow> bool_expr option \<Rightarrow> bool_expr option \<Rightarrow>
   expr option \<Rightarrow> int option \<Rightarrow> int option \<Rightarrow> (string \<times> expr) list option \<Rightarrow>
   py_error + query_result" where
  "compile_query select relation_items on_condition where_condition order_by limit offset computed =
     (let env = empty_env;
          all_relations = (case relation_items of None \<Rightarrow> [] | Some rs \<Rightarrow> relation_entries rs)
      in case (case on_condition of None \<Rightarrow> Inr env | Some c \<Rightarrow> process_join_condition c env) of
           Inl e \<Rightarrow> Inl e
         | Inr env1 \<Rightarrow>
        (case compile_where where_condition env1 of
           Inl e \<Rightarrow> Inl e
         | Inr (where_parts, or_branches, env2) \<Rightarrow>
        let has_agg = list_ex select_is_agg select;
            computed' = (case computed of None \<Rightarrow> [] | Some c \<Rightarrow> c);
            has_computed_agg = list_ex (\<lambda>(k, v). is_agg v) computed'
        in if has_agg \<or> has_computed_agg then
             (case compile_agg_query select env2 all_relations where_parts or_branches
                     order_by limit offset computed' of
                Inl e \<Rightarrow> Inl e
              | Inr q \<Rightarrow> Inr (QueryStr q))
           else
        (case full_relations_loop (selected_relations select) [] all_relations env2 of
           Inl e \<Rightarrow> Inl e
         | Inr (head1, all_relations', env3) \<Rightarrow>
        (case get_vars (selected_columns select) env3 of
           Inl e \<Rightarrow> Inl e
         | Inr (head2, env4) \<Rightarrow>
        (case compile_exprs (map snd computed') env4 of
           Inl e \<Rightarrow> Inl e
         | Inr (head3, env5) \<Rightarrow>
        (case apply_order_by order_by (head1 @ head2 @ head3) env5 of
           Inl e \<Rightarrow> Inl e
         | Inr (head_parts, env6) \<Rightarrow>
        (case build_body_atoms all_relations' env6 of
           Inl e \<Rightarrow> Inl e
         | Inr (body_atoms, env7) \<Rightarrow>
        let all_body = body_atoms @ where_parts @ limit_parts limit offset;
            head_str = join '', '' head_parts
        in case or_branches of
             Some branches \<Rightarrow>
               Inr (QueryList (branch_queries head_str body_atoms limit offset branches))
           | None \<Rightarrow> Inr (QueryStr (query_text head_str all_body)))))))))"

text \<open>
  \<open>compile_conditional_delete\<close>: the variables \<open>X0, X1, ...\<close> are rendered into the head
  and the body atom first, then bound to the columns in a fresh environment, in which the
  condition is compiled.
\<close>

definition positional_vars :: "nat \<Rightarrow> string list" where
  "positional_vars n = map (\<lambda>i. ''X'' @ str_nat i) [0..<n]"

definition prebound_env :: "string \<Rightarrow> string list \<Rightarrow> string list \<Rightarrow> var_env" where
  "prebound_env name columns vars =
     empty_env\<lparr>env_map :=
       fold (\<lambda>(col, var) m. AList.update (name @ ''.'' @ col) var m) (zip columns vars) []\<rparr>"

definition compile_conditional_delete :: "relation_cls \<Rightarrow> bool_expr \<Rightarrow> py_error + string" where
  "compile_conditional_delete cls condition =
     (let name = resolve_name cls;
          columns = get_columns cls;
          vars = positional_vars (length columns);
          head = ''-'' @ name @ ''('' @ join '', '' vars @ '')'';
          env = prebound_env name columns vars;
          body_rel = name @ ''('' @ join '', '' vars @ '')''
      in case compile_bool_expr condition env of
           Inl e \<Rightarrow> Inl e
         | Inr (cond_parts, env1) \<Rightarrow>
             Inr (head @ '' <- '' @ join '', '' ([body_rel] @ non_empty cond_parts)))"

text \<open>\<open>compile_rule\<close>, with the loop that builds the head.\<close>

fun rule_head_parts ::
  "string list \<Rightarrow> (string \<rightharpoonup> expr) \<Rightarrow> var_env \<Rightarrow> py_error + (string list \<times> var_env)" where
  "rule_head_parts [] select_map env = Inr ([], env)"
| "rule_head_parts (col # cols) select_map env =
     (case select_map col of
        Some ex \<Rightarrow>
          (case compile_expr ex env of
             Inl e \<Rightarrow> Inl e
           | Inr (compiled, env1) \<Rightarrow>
               (case rule_head_parts cols select_map env1 of
                  Inl e \<Rightarrow> Inl e
                | Inr (parts, env2) \<Rightarrow> Inr (compiled # parts, env2)))
      | None \<Rightarrow>
          (case rule_head_parts cols select_map env of
             Inl e \<Rightarrow> Inl e
           | Inr (parts, env2) \<Rightarrow> Inr (column_to_variable col # parts, env2)))"

definition compile_rule ::
  "string \<Rightarrow> string list \<Rightarrow> (string \<times> expr) list \<Rightarrow> relation_entry list \<Rightarrow>
   bool_expr option \<Rightarrow> bool \<Rightarrow> py_error + string" where
  "compile_rule head_name head_columns select_map body_relations condition persistent =
     (let env = empty_env
      in case (case condition of None \<Rightarrow> Inr env | Some c \<Rightarrow> process_join_condition c env) of
           Inl e \<Rightarrow> Inl e
         | Inr env1 \<Rightarrow>
        (case rule_head_parts head_columns (map_of select_map) env1 of
           Inl e \<Rightarrow> Inl e
         | Inr (head_parts, env2) \<Rightarrow>
        (case build_body_atoms body_relations env2 of
           Inl e \<Rightarrow> Inl e
         | Inr (body_atoms, env3) \<Rightarrow>
        (case (case condition of
                 None \<Rightarrow> Inr ([], env3)
               | Some c \<Rightarrow>
                   (case compile_bool_expr c env3 of
                      Inl e \<Rightarrow> Inl e
                    | Inr (parts, env4) \<Rightarrow> Inr (non_empty parts, env4))) of
           Inl e \<Rightarrow> Inl e
         | Inr (cond_parts, env4) \<Rightarrow>
             let all_body = body_atoms @ cond_parts;
                 head_str = (if persistent then ''+'' else []) @ head_name @
                            ''('' @ join '', '' head_parts @ '')''
             in Inr (head_str @ '' <- '' @ join '', '' all_body)))))"


section \<open>Well-formed environments and supported conditions\<close>

text \<open>
  The parent dictionary is well-formed when following parents from any key ends: the
  relation between a key and its parent (for a key that is not its own parent) is
  well-founded. This holds of the empty dictionary and is kept by every method of the
  environment.
\<close>

definition parent_rel :: "(string \<times> string) list \<Rightarrow> (string \<times> string) set" where
  "parent_rel par = {(parent_get par k, k) | k. parent_get par k \<noteq> k}"

definition parent_wf :: "(string \<times> string) list \<Rightarrow> bool" where
  "parent_wf par = wf (parent_rel par)"

text \<open>
  The variable names of an environment whose counter is \<open>c\<close>: a name without underscore
  (a capitalized column name, or a positional \<open>Xi\<close>), or such a name followed by \<open>_m\<close>
  with \<open>m\<close> at most \<open>c\<close>. In a well-formed environment the names in use are of this
  form and pairwise different.
\<close>

definition underscore_free :: "string \<Rightarrow> bool" where
  "underscore_free v = (CHR ''_'' \<notin> set v)"

definition name_ok :: "nat \<Rightarrow> string \<Rightarrow> bool" where
  "name_ok c v =
     (underscore_free v \<or> (\<exists>b m. v = b @ ''_'' @ str_nat m \<and> underscore_free b \<and> m \<le> c))"

definition env_ok :: "var_env \<Rightarrow> bool" where
  "env_ok env =
     (parent_wf (env_parent env) \<and> distinct (map snd (env_map env)) \<and>
      (\<forall>v \<in> set (map snd (env_map env)). name_ok (env_counter env) v))"

text \<open>The number a decimal string denotes (used to show that \<open>str\<close> is injective).\<close>

definition digit_val :: "char \<Rightarrow> nat" where
  "digit_val c = length (takeWhile (\<lambda>x. x \<noteq> c) ''0123456789'')"

definition nat_of_str :: "string \<Rightarrow> nat" where
  "nat_of_str s = foldl (\<lambda>a c. 10 * a + digit_val c) 0 s"

text \<open>
  The values, expressions and conditions the compiler supports: no value of an unknown
  type, no expression or condition of an unknown node type, and membership tests between
  two columns. Of an aggregation only the operands that are compiled count.
\<close>

fun value_ok :: "pyvalue \<Rightarrow> bool" where
  "value_ok (VObject t) = False"
| "value_ok (VList vs) = list_all value_ok vs"
| "value_ok v = True"

fun expr_ok :: "expr \<Rightarrow> bool" where
  "expr_ok (Column relation name ref_alias) = True"
| "expr_ok (LiteralExpr v) = value_ok v"
| "expr_ok (Arithmetic op l r) = (expr_ok l \<and> expr_ok r)"
| "expr_ok (FuncCall name args) = list_all expr_ok args"
| "expr_ok (OrderedColumn column descending) = expr_ok column"
| "expr_ok (AggExpr func column params passthrough order_column desc) =
     (list_all value_ok params \<and> list_all expr_ok passthrough \<and>
      (case order_column of
         Some oc \<Rightarrow> expr_ok oc
       | None \<Rightarrow> (case column of Some c \<Rightarrow> expr_ok c | None \<Rightarrow> True)))"
| "expr_ok ExprBase = False"

fun leaves_ok :: "bool_expr \<Rightarrow> bool" where
  "leaves_ok (Comparison op left right) = (expr_ok left \<and> expr_ok right)"
| "leaves_ok (And left right) = (leaves_ok left \<and> leaves_ok right)"
| "leaves_ok (Or left right) = (leaves_ok left \<and> leaves_ok right)"
| "leaves_ok (NotExpr operand) = leaves_ok operand"
| "leaves_ok (InExpr column target_column) = (is_column column \<and> is_column target_column)"
| "leaves_ok (NegatedIn column target_column) = (is_column column \<and> is_column target_column)"
| "leaves_ok (MatchExpr relation bindings negated) = list_all expr_ok (map snd bindings)"
| "leaves_ok BoolExprBase = False"

text \<open>
  The root spine of a condition is the tree of \<open>Or\<close> nodes at its root: \<open>or_count\<close>
  counts them, and \<open>or_on_spine\<close> says that the condition has no \<open>Or\<close> elsewhere (below
  an \<open>And\<close> or a \<open>Not\<close>).
\<close>

fun or_count :: "bool_expr \<Rightarrow> nat" where
  "or_count (Or left right) = 1 + or_count left + or_count right"
| "or_count expr = 0"

fun or_on_spine :: "bool_expr \<Rightarrow> bool" where
  "or_on_spine (Or left right) = (or_on_spine left \<and> or_on_spine right)"
| "or_on_spine expr = (\<not> has_or expr)"


text \<open>
  A call on the environment ends well when it raises a Python exception or returns with a
  well-formed parent dictionary: it does not run forever.
\<close>

definition ends_well :: "py_error + ('a \<times> var_env) \<Rightarrow> bool" where
  "ends_well r =
     (case r of
        Inl e \<Rightarrow> e \<noteq> NonTermination
      | Inr (x, env') \<Rightarrow> parent_wf (env_parent env'))"


text \<open>
  The root of a key in a parent dictionary: the key itself when it is its own parent,
  otherwise the root of its parent.
\<close>

inductive root_of :: "(string \<times> string) list \<Rightarrow> string \<Rightarrow> string \<Rightarrow> bool"
  for par :: "(string \<times> string) list" where
  root: "parent_get par k = k \<Longrightarrow> root_of par k k"
| step: "parent_get par k \<noteq> k \<Longrightarrow> root_of par (parent_get par k) r \<Longrightarrow> root_of par k r"


section \<open>Example inputs\<close>

text \<open>
  A fresh store and the two migrations of the executor's tests: \<open>0001_initial\<close> creates
  relation \<open>t\<close>, \<open>0002_auto\<close> creates rule \<open>r\<close>.
\<close>

definition fresh_kg :: kg where
  "fresh_kg = \<lparr>commands = [], rows = [],
                clock = (\<lambda>n. ''2024-01-01T00:00:0'' @ str_nat n), ticks = 0\<rparr>"

definition m0001 :: migration_info where
  "m0001 = \<lparr>mig_name = ''0001_initial'', mig_number = 1, mig_filename = ''0001_initial.py'',
             mig_dependencies = [], mig_operations = [CreateRelation ''t'' [(''a'', ''int'')]]\<rparr>"

definition m0002 :: migration_info where
  "m0002 = \<lparr>mig_name = ''0002_auto'', mig_number = 2, mig_filename = ''0002_auto.py'',
             mig_dependencies = [''0001_initial''],
             mig_operations = [CreateRule ''r'' [''+r(X) <- t(X)'']]\<rparr>"

text \<open>The relation \<open>Employee\<close> of the compiler's tests.\<close>

definition Employee :: relation_cls where
  "Employee = \<lparr>cls_name = ''Employee'', relation_name_attr = None,
     model_fields = [(''id'', PyInt), (''name'', PyStr), (''department'', PyStr),
                     (''salary'', PyFloat), (''active'', PyBool)]\<rparr>"

text \<open>The condition \<open>department = "eng" or department = "sales"\<close> on \<open>Employee\<close>.\<close>

definition eng_or_sales :: bool_expr where
  "eng_or_sales =
     Or (Comparison ''='' (Column ''employee'' ''department'' None) (LiteralExpr (VStr ''eng'')))
        (Comparison ''='' (Column ''employee'' ''department'' None) (LiteralExpr (VStr ''sales'')))"

text \<open>An environment in which the key \<open>a.x\<close> has the variable \<open>X\<close>.\<close>

definition env_with_x :: var_env where
  "env_with_x = \<lparr>env_map = [(''a.x'', ''X'')], env_counter = 0, env_parent = []\<rparr>"

text \<open>
  Conditions on \<open>Employee\<close>: a disjunction of three comparisons, a conjunction with a
  disjunction below it, and a membership test whose left operand is a literal.
\<close>

definition dept_is :: "string \<Rightarrow> bool_expr" where
  "dept_is d =
     Comparison ''='' (Column ''employee'' ''department'' None) (LiteralExpr (VStr d))"

definition three_way_or :: bool_expr where
  "three_way_or = Or (Or (dept_is ''eng'') (dept_is ''sales'')) (dept_is ''ops'')"

definition and_over_or :: bool_expr where
  "and_over_or =
     And (Or (dept_is ''eng'') (dept_is ''sales''))
         (Comparison ''='' (Column ''employee'' ''active'' None) (LiteralExpr (VBool True)))"

definition literal_in_column :: bool_expr where
  "literal_in_column = InExpr (LiteralExpr (VInt 1)) (Column ''department'' ''id'' None)"

text \<open>
  A relation \<open>Pair(a, b)\<close> and two one-column relations \<open>A(x)\<close> and \<open>B(y)\<close>.
\<close>

definition Pair :: relation_cls where
  "Pair = \<lparr>cls_name = ''Pair'', relation_name_attr = None,
            model_fields = [(''a'', PyInt), (''b'', PyInt)]\<rparr>"

definition RelA :: relation_cls where
  "RelA = \<lparr>cls_name = ''A'', relation_name_attr = None, model_fields = [(''x'', PyInt)]\<rparr>"

definition RelB :: relation_cls where
  "RelB = \<lparr>cls_name = ''B'', relation_name_attr = None, model_fields = [(''y'', PyInt)]\<rparr>"

section \<open>Migration executor and recorder: properties\<close>

lemmas migrate_defs = migrate_def ensure_schema_def get_applied_def execute_def
  sorted_row_names_def apply_migration_def record_applied_def MIGRATION_RELATION_def
  schema_command_def

lemma migrate_loop_target_not_applied:
  "t \<notin> set acc \<Longrightarrow> t \<notin> set (snd (migrate_loop applied (Some t) ms k acc))"
  by (induction ms arbitrary: k acc) (auto simp: Let_def)

text \<open>
  Whatever the store and the list, a migration named as the target is never among the
  migrations that \<open>migrate\<close> applies: the loop leaves at the first \<open>break\<close>, before
  \<open>apply_migration\<close>.
\<close>

lemma migrate_never_applies_target:
  assumes "migrate k ms (Some t) = Inr (names, k')"
  shows "t \<notin> set names"
proof -
  obtain ns k2 where g: "get_applied (ensure_schema k) = (ns, k2)"
    by (cases "get_applied (ensure_schema k)")
  obtain k3 acc where l: "migrate_loop (set ns) (Some t) ms k2 [] = (k3, acc)"
    by (cases "migrate_loop (set ns) (Some t) ms k2 []")
  from assms g l have "names = acc" by (simp add: migrate_def Let_def)
  moreover from migrate_loop_target_not_applied[of t "[]" "set ns" ms k2] l
  have "t \<notin> set acc" by simp
  ultimately show ?thesis by simp
qed

text \<open>
  C3. With nothing applied yet and the target \<open>0002_auto\<close> in the list
  \<open>[0001_initial, 0002_auto]\<close>, \<open>migrate\<close> returns \<open>[0001_initial]\<close>: the target
  itself is not applied, although the claim says every pending migration up to and including
  the target is.
\<close>

theorem migrate_stops_before_target:
  "map_sum id fst (migrate fresh_kg [m0001, m0002] (Some ''0002_auto'')) = Inr [''0001_initial'']"
  by (simp add: migrate_defs fresh_kg_def m0001_def m0002_def Let_def)

lemma migrate_loop_absent_target:
  "t \<notin> set (map mig_name ms) \<Longrightarrow>
     migrate_loop applied (Some t) ms k acc = migrate_loop applied None ms k acc"
  by (induction ms arbitrary: k acc) (auto simp: Let_def)

lemma find_target_idx_None: "t \<notin> set (map mig_name ms) \<Longrightarrow> find_target_idx t ms = None"
  by (induction ms) auto

text \<open>
  C4, as stated, fails for \<open>migrate\<close>: with the target \<open>0099_nope\<close>, which names no
  migration of the list, \<open>migrate\<close> returns normally, having applied \<open>0001_initial\<close>.
\<close>

theorem migrate_absent_target_returns:
  "''0099_nope'' \<notin> set (map mig_name [m0001]) \<and>
   map_sum id fst (migrate fresh_kg [m0001] (Some ''0099_nope'')) = Inr [''0001_initial'']"
  by (simp add: migrate_defs fresh_kg_def m0001_def Let_def)

text \<open>
  C4, amended. When no migration of the list is named \<open>t\<close>, \<open>revert_to\<close> raises
  \<open>MigrationError\<close>, and \<open>migrate\<close> with target \<open>t\<close> does exactly what it does
  with no target: it applies every migration not yet applied and returns normally.
\<close>

theorem absent_target:
  "t \<notin> set (map mig_name L) \<Longrightarrow>
     revert_to k L t = Inl (MigrationError t) \<and> migrate k L (Some t) = migrate k L None"
  by (simp add: revert_to_def migrate_def find_target_idx_None migrate_loop_absent_target
      Let_def split: prod.splits)

theorem absent_target_witness:
  "''0099_nope'' \<notin> set (map mig_name [m0001]) \<and>
   revert_to fresh_kg [m0001] ''0099_nope'' = Inl (MigrationError ''0099_nope'') \<and>
   migrate fresh_kg [m0001] (Some ''0099_nope'') = migrate fresh_kg [m0001] None"
  using absent_target[of "''0099_nope''" "[m0001]" fresh_kg] by (simp add: m0001_def)

text \<open>
  C5, as stated, fails: when the name \<open>0001_initial\<close> is recorded in two rows,
  \<open>get_applied\<close> returns it twice.
\<close>

theorem get_applied_keeps_duplicates:
  "\<not> distinct (fst (get_applied (fresh_kg\<lparr>rows :=
      [(''0001_initial'', ''2024-01-01''), (''0001_initial'', ''2024-01-02'')]\<rparr>)))"
  by (simp add: get_applied_def execute_def sorted_row_names_def Let_def fresh_kg_def)

text \<open>
  C5, amended. \<open>get_applied\<close> returns the names of the recorded rows sorted ascending, one
  entry for each row (so a name recorded in several rows appears as many times); the list
  has no name twice when no name is recorded in two rows.
\<close>

theorem get_applied_sorted:
  "sorted (fst (get_applied k)) \<and> mset (fst (get_applied k)) = mset (map fst (rows k)) \<and>
   (distinct (map fst (rows k)) \<longrightarrow> distinct (fst (get_applied k)))"
  by (simp add: get_applied_def execute_def sorted_row_names_def Let_def)

theorem get_applied_sorted_witness:
  "distinct (map fst (rows (fresh_kg\<lparr>rows :=
      [(''0002_auto'', ''2024-01-02''), (''0001_initial'', ''2024-01-01'')]\<rparr>))) \<and>
   sorted (fst (get_applied (fresh_kg\<lparr>rows :=
      [(''0002_auto'', ''2024-01-02''), (''0001_initial'', ''2024-01-01'')]\<rparr>))) \<and>
   distinct (fst (get_applied (fresh_kg\<lparr>rows :=
      [(''0002_auto'', ''2024-01-02''), (''0001_initial'', ''2024-01-01'')]\<rparr>)))"
proof -
  let ?k = "fresh_kg\<lparr>rows :=
      [(''0002_auto'', ''2024-01-02''), (''0001_initial'', ''2024-01-01'')]\<rparr>"
  have d: "distinct (map fst (rows ?k))" by simp
  from get_applied_sorted[of ?k] d show ?thesis by blast
qed


section \<open>Type registry: properties\<close>

lemma type_map_loop_fail:
  "(\<forall>base \<in> set (map fst tm). tp \<noteq> base \<and> \<not> (is_class tp \<and> issubclass tp base)) \<Longrightarrow>
     type_map_loop tp tm = Inl (TypeError ''Unsupported type for InputLayer schema'')"
proof (induction tm)
  case Nil
  then show ?case by simp
next
  case (Cons a tm)
  obtain b n where a: "a = (b, n)" by (cases a)
  from Cons.prems a have nb: "tp \<noteq> b" "\<not> (is_class tp \<and> issubclass tp b)" by simp_all
  from Cons have ih:
    "type_map_loop tp tm = Inl (TypeError ''Unsupported type for InputLayer schema'')"
    by simp
  from nb ih a show ?case by (cases tp) simp_all
qed

lemma vector_dim_registry:
  "vector_dim tp = Some d \<Longrightarrow> is_class tp \<and> issubclass tp PyVector"
  by (induction tp) auto

lemma vector_int8_dim_registry:
  "vector_int8_dim tp = Some d \<Longrightarrow> is_class tp \<and> issubclass tp PyVectorInt8"
  by (induction tp) auto

lemma unregistered_fails:
  assumes "\<not> in_registry tp"
  shows "python_type_to_datalog tp = Inl (TypeError ''Unsupported type for InputLayer schema'')"
proof -
  have v: "vector_dim tp = None"
  proof (cases "vector_dim tp")
    case (Some d)
    from vector_dim_registry[OF this] assms show ?thesis
      by (simp add: in_registry_def TYPE_MAP_def)
  qed simp
  have v8: "vector_int8_dim tp = None"
  proof (cases "vector_int8_dim tp")
    case (Some d)
    from vector_int8_dim_registry[OF this] assms show ?thesis
      by (simp add: in_registry_def TYPE_MAP_def)
  qed simp
  from assms have
    "type_map_loop tp TYPE_MAP = Inl (TypeError ''Unsupported type for InputLayer schema'')"
    by (intro type_map_loop_fail) (simp add: in_registry_def)
  with v v8 show ?thesis by (simp add: python_type_to_datalog_def)
qed

lemma type_map_loop_ok:
  "base \<in> set (map fst tm) \<Longrightarrow> tp = base \<or> (is_class tp \<and> issubclass tp base) \<Longrightarrow>
     \<exists>n. type_map_loop tp tm = Inr n"
proof (induction tm)
  case Nil
  then show ?case by simp
next
  case (Cons a tm)
  obtain b n where a: "a = (b, n)" by (cases a)
  show ?case
  proof (cases "tp = b \<or> (is_class tp \<and> issubclass tp b)")
    case True
    with a show ?thesis by (cases tp) auto
  next
    case False
    with Cons a have "base \<in> set (map fst tm)" by auto
    from Cons.IH[OF this Cons.prems(2)] obtain r where "type_map_loop tp tm = Inr r" by blast
    with a show ?thesis by (cases tp) auto
  qed
qed

text \<open>Conversely, every type in the registry resolves to a storage type.\<close>

lemma registered_ok:
  assumes "in_registry tp"
  shows "\<exists>n. python_type_to_datalog tp = Inr n"
proof -
  from assms obtain base where "base \<in> set (map fst TYPE_MAP)"
    "tp = base \<or> (is_class tp \<and> issubclass tp base)"
    unfolding in_registry_def by blast
  from type_map_loop_ok[OF this] show ?thesis
    unfolding python_type_to_datalog_def by (auto split: option.splits)
qed

text \<open>
  C8. \<open>bool\<close> resolves to \<open>bool\<close> and \<open>Timestamp\<close> to \<open>timestamp\<close>, although both
  are subclasses of \<open>int\<close> (they come before \<open>int\<close> in \<open>TYPE_MAP\<close>); \<open>Vector[n]\<close>
  resolves to \<open>vector[n]\<close> and \<open>VectorInt8[n]\<close> to \<open>vector_int8[n]\<close>, with \<open>n\<close> in
  decimal; and a type outside the registry makes \<open>python_type_to_datalog\<close> raise
  \<open>TypeError\<close>.
\<close>

theorem type_resolution:
  "python_type_to_datalog PyBool = Inr ''bool'' \<and>
   python_type_to_datalog PyTimestamp = Inr ''timestamp'' \<and>
   python_type_to_datalog PyInt = Inr ''int'' \<and>
   python_type_to_datalog (PyVectorDim n) = Inr (''vector['' @ str_nat n @ '']'') \<and>
   python_type_to_datalog (PyVectorInt8Dim n) = Inr (''vector_int8['' @ str_nat n @ '']'') \<and>
   python_type_to_datalog (PyVectorDim 128) = Inr ''vector[128]'' \<and>
   python_type_to_datalog (PyVectorInt8Dim 64) = Inr ''vector_int8[64]'' \<and>
   (\<not> in_registry tp \<longrightarrow> (\<exists>msg. python_type_to_datalog tp = Inl (TypeError msg)))"
  by (simp add: unregistered_fails)
     (simp add: python_type_to_datalog_def TYPE_MAP_def str_nat.simps digit_char_def)

theorem type_resolution_witness:
  "\<not> in_registry (PyClass ''dict'') \<and>
   (\<exists>msg. python_type_to_datalog (PyClass ''dict'') = Inl (TypeError msg))"
  using type_resolution[of 1 "PyClass ''dict''"] by (simp add: in_registry_def TYPE_MAP_def)


section \<open>Autodetector: properties\<close>

lemma for_each_empty:
  "(\<And>x. x \<in> set xs \<Longrightarrow> body x = Inr []) \<Longrightarrow> for_each body xs = Inr []"
  by (induction xs) auto

lemma subscript_dom: "x \<in> fmdom' m \<Longrightarrow> \<exists>v. subscript (fmlookup m x) x = Inr v"
  by (simp add: fmlookup_dom'_iff subscript_def) (metis option.simps(5))

text \<open>
  C9. Diffing a state against itself yields no operation: \<open>detect_changes(S, S)\<close> returns
  the empty list.
\<close>

theorem detect_changes_same: "detect_changes S S = Inr []"
proof -
  have rels: "for_each (\<lambda>name.
             case subscript (fmlookup (relations S) name) name of
               Inl e \<Rightarrow> Inl e
             | Inr old_cols \<Rightarrow>
                 (case subscript (fmlookup (relations S) name) name of
                    Inl e \<Rightarrow> Inl e
                  | Inr new_cols \<Rightarrow>
                      if old_cols \<noteq> new_cols
                      then Inr [DropRelation name old_cols, CreateRelation name new_cols]
                      else Inr []))
           (sorted_list_of_set (fmdom' (relations S))) = Inr []"
    by (rule for_each_empty) (use subscript_dom in fastforce)
  have rules: "for_each (\<lambda>name.
             case subscript (fmlookup (rules S) name) name of
               Inl e \<Rightarrow> Inl e
             | Inr old_clauses \<Rightarrow>
                 (case subscript (fmlookup (rules S) name) name of
                    Inl e \<Rightarrow> Inl e
                  | Inr new_clauses \<Rightarrow>
                      if old_clauses \<noteq> new_clauses
                      then Inr [ReplaceRule name old_clauses new_clauses]
                      else Inr []))
           (sorted_list_of_set (fmdom' (rules S))) = Inr []"
    by (rule for_each_empty) (use subscript_dom in fastforce)
  have idxs: "for_each (\<lambda>name.
             case subscript (fmlookup (indexes S) name) name of
               Inl e \<Rightarrow> Inl e
             | Inr old_info \<Rightarrow>
                 (case subscript (fmlookup (indexes S) name) name of
                    Inl e \<Rightarrow> Inl e
                  | Inr new_info \<Rightarrow>
                      if old_info \<noteq> new_info
                      then sequence_ops [drop_index_op name old_info, create_index_op name new_info]
                      else Inr []))
           (sorted_list_of_set (fmdom' (indexes S))) = Inr []"
    by (rule for_each_empty) (use subscript_dom in fastforce)
  show ?thesis
    unfolding detect_changes_def Let_def
    by (simp add: rels rules idxs)
qed


section \<open>Schema compilation: properties\<close>

lemma schema_parts_ok:
  "(\<And>c tp. (c, tp) \<in> set fs \<Longrightarrow> m c = Some tp) \<Longrightarrow>
   map (\<lambda>f. python_type_to_datalog (snd f)) fs = map Inr ts \<Longrightarrow>
   schema_parts m (map fst fs) = Inr (map (\<lambda>(c, t). c @ '': '' @ t) (zip (map fst fs) ts))"
proof (induction fs arbitrary: ts)
  case Nil
  then show ?case by simp
next
  case (Cons f fs)
  obtain c tp where f: "f = (c, tp)" by (cases f)
  from Cons.prems(2) obtain t ts' where ts: "ts = t # ts'"
    "python_type_to_datalog tp = Inr t" "map (\<lambda>f. python_type_to_datalog (snd f)) fs = map Inr ts'"
    using f by (cases ts) auto
  have m: "m c = Some tp" using Cons.prems(1) f by simp
  have "schema_parts m (map fst fs) = Inr (map (\<lambda>(c, t). c @ '': '' @ t) (zip (map fst fs) ts'))"
    using Cons.IH[OF _ ts(3)] Cons.prems(1) by simp
  with f ts m show ?case by (simp add: subscript_def)
qed

text \<open>
  C7. For a relation class whose field names are distinct and whose field types resolve to
  the storage types \<open>ts\<close>, \<open>compile_schema\<close> returns \<open>+name(c1: t1, ..., cn: tn)\<close>,
  the columns in declaration order and joined by a comma and a space; for \<open>Employee\<close>
  it returns the schema statement of scenario S1.
\<close>

theorem compile_schema_text:
  "(distinct (map fst (model_fields R)) \<and>
    map (\<lambda>f. python_type_to_datalog (snd f)) (model_fields R) = map Inr ts \<longrightarrow>
    compile_schema R =
      Inr (''+'' @ resolve_name R @ ''('' @
           join '', '' (map (\<lambda>(c, t). c @ '': '' @ t) (zip (get_columns R) ts)) @ '')'')) \<and>
   compile_schema Employee =
     Inr ''+employee(id: int, name: string, department: string, salary: float, active: bool)''"
proof (intro conjI impI)
  assume a: "distinct (map fst (model_fields R)) \<and>
    map (\<lambda>f. python_type_to_datalog (snd f)) (model_fields R) = map Inr ts"
  then have "\<And>c tp. (c, tp) \<in> set (model_fields R) \<Longrightarrow> map_of (model_fields R) c = Some tp"
    by simp
  from schema_parts_ok[OF this] a
  show "compile_schema R =
      Inr (''+'' @ resolve_name R @ ''('' @
           join '', '' (map (\<lambda>(c, t). c @ '': '' @ t) (zip (get_columns R) ts)) @ '')'')"
    by (simp add: compile_schema_def get_columns_def get_column_types_def)
next
  show "compile_schema Employee =
     Inr ''+employee(id: int, name: string, department: string, salary: float, active: bool)''"
    by (simp add: compile_schema_def Employee_def resolve_name_def get_columns_def
        get_column_types_def camel_to_snake_def python_type_to_datalog_def TYPE_MAP_def
        subscript_def to_lower_def upper_letters_def lower_letters_def is_upper_def
        is_lower_def is_digit_def)
qed

theorem compile_schema_text_witness:
  "distinct (map fst (model_fields Employee)) \<and>
   map (\<lambda>f. python_type_to_datalog (snd f)) (model_fields Employee) =
     map Inr [''int'', ''string'', ''string'', ''float'', ''bool''] \<and>
   compile_schema Employee =
      Inr (''+'' @ resolve_name Employee @ ''('' @
           join '', '' (map (\<lambda>(c, t). c @ '': '' @ t)
             (zip (get_columns Employee) [''int'', ''string'', ''string'', ''float'', ''bool''])) @ '')'')"
proof -
  have h: "distinct (map fst (model_fields Employee)) \<and>
   map (\<lambda>f. python_type_to_datalog (snd f)) (model_fields Employee) =
     map Inr [''int'', ''string'', ''string'', ''float'', ''bool'']"
    by (simp add: Employee_def python_type_to_datalog_def TYPE_MAP_def)
  with compile_schema_text[of Employee "[''int'', ''string'', ''string'', ''float'', ''bool'']"]
  show ?thesis by blast
qed


section \<open>Query compilation: properties\<close>

lemma join_snoc_ends: "\<exists>pre. join sep (xs @ [l]) = pre @ l"
proof (induction xs rule: join.induct[of _ sep])
  case (3 sep x y ys)
  then show ?case by (metis append.assoc append_Cons join.simps(3))
qed auto

lemma limit_parts_Some:
  "limit_parts (Some n) offset =
     [case offset of None \<Rightarrow> ''limit('' @ str_int n @ '')''
      | Some m \<Rightarrow> ''limit('' @ str_int n @ '', '' @ str_int m @ '')'']"
  by (simp add: limit_parts_def split: option.splits)

lemma compile_where_has_or:
  "has_or w \<Longrightarrow> compile_where (Some w) env = Inr (wp, ob, env') \<Longrightarrow> \<exists>bs. ob = Some bs"
  by (auto simp: compile_where_def split: sum.splits)

lemma branch_queries_limit:
  assumes "q \<in> set (branch_queries head_str body_atoms (Some n) offset branches)"
  shows "\<exists>pre. q = ''?'' @ head_str @ '' <- '' @ pre @
           (case offset of None \<Rightarrow> ''limit('' @ str_int n @ '')''
            | Some m \<Rightarrow> ''limit('' @ str_int n @ '', '' @ str_int m @ '')'')"
proof -
  from assms obtain bp where
    q: "q = ''?'' @ head_str @ '' <- '' @
          join '', '' ((body_atoms @ non_empty bp) @ limit_parts (Some n) offset)"
    unfolding branch_queries_def by auto
  from join_snoc_ends[of "'', ''" "body_atoms @ non_empty bp"] q show ?thesis
    unfolding limit_parts_Some by auto
qed

lemma agg_query_limit:
  assumes "compile_agg_query select env rels wp ob order_by (Some n) offset computed = Inr q"
  shows "\<exists>head pre. q = ''?'' @ head @ '' <- '' @ pre @
           (case offset of None \<Rightarrow> ''limit('' @ str_int n @ '')''
            | Some m \<Rightarrow> ''limit('' @ str_int n @ '', '' @ str_int m @ '')'')"
proof -
  let ?l = "case offset of None \<Rightarrow> ''limit('' @ str_int n @ '')''
            | Some m \<Rightarrow> ''limit('' @ str_int n @ '', '' @ str_int m @ '')''"
  from assms obtain head_str body_atoms where
    q: "q = query_text head_str (body_atoms @ wp @ limit_parts (Some n) offset)"
    unfolding compile_agg_query_def by (auto simp: Let_def split: sum.splits)
  have "body_atoms @ wp @ limit_parts (Some n) offset \<noteq> []" by (simp add: limit_parts_Some)
  with q have q': "q = ''?'' @ head_str @ '' <- '' @ join '', '' ((body_atoms @ wp) @ [?l])"
    by (simp add: query_text_def limit_parts_Some)
  obtain pre where "join '', '' ((body_atoms @ wp) @ [?l]) = pre @ ?l"
    using join_snoc_ends by blast
  with q' have "q = ''?'' @ head_str @ '' <- '' @ pre @ ?l" by simp
  then show ?thesis by blast
qed

text \<open>
  C10. When the where-condition contains an \<open>Or\<close> and a limit is set, every query string
  that \<open>compile_query\<close> returns starts with the same \<open>?head <-\<close> and ends with the
  same literal \<open>limit(N)\<close>, or \<open>limit(N, M)\<close> when an offset is set too. (With an
  aggregation in the selection the result is a single string, which ends with the literal
  as well.)
\<close>

theorem or_branches_share_limit:
  assumes "has_or w"
    and "compile_query select rels on_cond (Some w) order_by (Some n) offset computed = Inr r"
  shows "\<exists>head. \<forall>q \<in> set (case r of QueryList qs \<Rightarrow> qs | QueryStr s \<Rightarrow> [s]).
           \<exists>pre. q = ''?'' @ head @ '' <- '' @ pre @
             (case offset of None \<Rightarrow> ''limit('' @ str_int n @ '')''
              | Some m \<Rightarrow> ''limit('' @ str_int n @ '', '' @ str_int m @ '')'')"
proof -
  let ?l = "case offset of None \<Rightarrow> ''limit('' @ str_int n @ '')''
            | Some m \<Rightarrow> ''limit('' @ str_int n @ '', '' @ str_int m @ '')''"
  from assms(2) obtain env1 wp ob env2 where
    w: "compile_where (Some w) env1 = Inr (wp, ob, env2)"
    unfolding compile_query_def by (auto simp: Let_def split: sum.splits)
  from compile_where_has_or[OF assms(1) w] obtain bs where ob: "ob = Some bs" by blast
  from assms(2) have
    "(\<exists>sel env rs wp ob cs q. r = QueryStr q \<and>
        compile_agg_query sel env rs wp ob order_by (Some n) offset cs = Inr q) \<or>
     (\<exists>head_str body_atoms bs. r = QueryList (branch_queries head_str body_atoms (Some n) offset bs)) \<or>
     (\<exists>e wp env'. compile_where (Some w) e = Inr (wp, None, env'))"
    unfolding compile_query_def
    by (auto simp: Let_def split: sum.splits if_splits option.splits; blast)
  then consider
    (agg) q sel env rs wp ob cs where "r = QueryStr q"
      "compile_agg_query sel env rs wp ob order_by (Some n) offset cs = Inr q"
    | (branches) head_str body_atoms bs where
      "r = QueryList (branch_queries head_str body_atoms (Some n) offset bs)"
    | (none) e wp env' where "compile_where (Some w) e = Inr (wp, None, env')"
    by blast
  then show ?thesis
  proof cases
    case agg
    from agg_query_limit[OF agg(2)] obtain head pre where
      "q = ''?'' @ head @ '' <- '' @ pre @ ?l" by blast
    with agg(1) show ?thesis by (intro exI[of _ head]) simp
  next
    case branches
    have "\<forall>q \<in> set (branch_queries head_str body_atoms (Some n) offset bs).
           \<exists>pre. q = ''?'' @ head_str @ '' <- '' @ pre @ ?l"
      using branch_queries_limit by blast
    with branches show ?thesis by (intro exI[of _ head_str]) simp
  next
    case none
    from compile_where_has_or[OF assms(1) none] show ?thesis by simp
  qed
qed


lemma eng_or_sales_query:
  "compile_query [SelectRelation Employee] (Some [RelationClass Employee]) None
     (Some eng_or_sales) None (Some 10) (Some 20) None =
   Inr (QueryList
     [''?Id, Name, Department, Salary, Active <- employee(Id, Name, Department, Salary, Active), Department = '' @ [CHR 0x22] @ ''eng'' @ [CHR 0x22] @ '', limit(10, 20)'',
      ''?Id, Name, Department, Salary, Active <- employee(Id, Name, Department, Salary, Active), Department = '' @ [CHR 0x22] @ ''sales'' @ [CHR 0x22] @ '', limit(10, 20)''])"
  by code_simp

theorem or_branches_share_limit_witness:
  "has_or eng_or_sales \<and>
   compile_query [SelectRelation Employee] (Some [RelationClass Employee]) None
     (Some eng_or_sales) None (Some 10) (Some 20) None =
   Inr (QueryList
     [''?Id, Name, Department, Salary, Active <- employee(Id, Name, Department, Salary, Active), Department = '' @ [CHR 0x22] @ ''eng'' @ [CHR 0x22] @ '', limit(10, 20)'',
      ''?Id, Name, Department, Salary, Active <- employee(Id, Name, Department, Salary, Active), Department = '' @ [CHR 0x22] @ ''sales'' @ [CHR 0x22] @ '', limit(10, 20)'']) \<and>
   (\<exists>head.
      (\<exists>pre. ''?Id, Name, Department, Salary, Active <- employee(Id, Name, Department, Salary, Active), Department = '' @ [CHR 0x22] @ ''eng'' @ [CHR 0x22] @ '', limit(10, 20)'' =
         ''?'' @ head @ '' <- '' @ pre @ ''limit('' @ str_int 10 @ '', '' @ str_int 20 @ '')'') \<and>
      (\<exists>pre. ''?Id, Name, Department, Salary, Active <- employee(Id, Name, Department, Salary, Active), Department = '' @ [CHR 0x22] @ ''sales'' @ [CHR 0x22] @ '', limit(10, 20)'' =
         ''?'' @ head @ '' <- '' @ pre @ ''limit('' @ str_int 10 @ '', '' @ str_int 20 @ '')''))"
proof -
  have h: "has_or eng_or_sales" by (simp add: eng_or_sales_def)
  from or_branches_share_limit[OF h eng_or_sales_query] eng_or_sales_query h
  show ?thesis by simp
qed


section \<open>Variable environment: properties\<close>

text \<open>
  In a well-formed parent dictionary the loop of \<open>_find\<close> ends; it returns a root, keeps
  the dictionary well-formed and leaves every root a root.
\<close>

lemma parent_get_update:
  "parent_get (AList.update k v par) x = (if x = k then v else parent_get par x)"
  by (simp add: parent_get_def update_conv')

lemma find_loop_terminates:
  assumes "wf R" "trans R"
  shows "parent_rel par \<subseteq> R \<Longrightarrow>
    \<exists>par' root. find_loop par key = Some (par', root) \<and> parent_rel par' \<subseteq> R \<and>
      parent_get par' root = root \<and> (\<forall>k. parent_get par k = k \<longrightarrow> parent_get par' k = k)"
  using assms(1)
proof (induction key arbitrary: par rule: wf_induct_rule)
  case (less key)
  show ?case
  proof (cases "parent_get par key = key")
    case True
    then show ?thesis using less.prems by (subst find_loop.simps) simp
  next
    case False
    let ?p = "parent_get par key"
    let ?gp = "parent_get par ?p"
    let ?par2 = "AList.update key ?gp par"
    from False have pk: "(?p, key) \<in> R" using less.prems by (auto simp: parent_rel_def)
    have gpp: "?gp = ?p \<or> (?gp, ?p) \<in> R" using less.prems by (auto simp: parent_rel_def)
    with pk have gk: "(?gp, key) \<in> R" using assms(2) by (auto dest: transD)
    have sub: "parent_rel ?par2 \<subseteq> R"
      using less.prems gk by (auto simp: parent_rel_def parent_get_update split: if_splits)
    from less.IH[OF gk sub] obtain par' root where
      r: "find_loop ?par2 ?gp = Some (par', root)" "parent_rel par' \<subseteq> R"
         "parent_get par' root = root" "\<forall>k. parent_get ?par2 k = k \<longrightarrow> parent_get par' k = k"
      by blast
    have "\<forall>k. parent_get par k = k \<longrightarrow> parent_get par' k = k"
    proof (intro allI impI)
      fix k assume k: "parent_get par k = k"
      with False have "k \<noteq> key" by auto
      with k have "parent_get ?par2 k = k" by (simp add: parent_get_update)
      with r(4) show "parent_get par' k = k" by blast
    qed
    with r False show ?thesis by (subst find_loop.simps) simp
  qed
qed

lemma find_loop_wf:
  assumes "parent_wf par"
  shows "\<exists>par' root. find_loop par key = Some (par', root) \<and> parent_wf par' \<and>
      parent_get par' root = root \<and> (\<forall>k. parent_get par k = k \<longrightarrow> parent_get par' k = k)"
proof -
  have "wf ((parent_rel par)\<^sup>+)" using assms by (simp add: parent_wf_def wf_trancl)
  have "parent_rel par \<subseteq> (parent_rel par)\<^sup>+" by auto
  from find_loop_terminates[OF \<open>wf ((parent_rel par)\<^sup>+)\<close> trans_trancl this, of key]
  obtain par' root where r: "find_loop par key = Some (par', root)"
    "parent_rel par' \<subseteq> (parent_rel par)\<^sup>+" "parent_get par' root = root"
    "\<forall>k. parent_get par k = k \<longrightarrow> parent_get par' k = k" by auto
  from r(2) \<open>wf ((parent_rel par)\<^sup>+)\<close> have "parent_wf par'"
    unfolding parent_wf_def by (rule wf_subset[rotated])
  with r show ?thesis by blast
qed

lemma VarEnv_find_ok:
  assumes "parent_wf (env_parent env)"
  shows "\<exists>root env'. VarEnv_find key env = Inr (root, env') \<and> parent_wf (env_parent env') \<and>
     parent_get (env_parent env') root = root \<and> env_map env' = env_map env \<and>
     env_counter env' = env_counter env \<and>
     (\<forall>k. parent_get (env_parent env) k = k \<longrightarrow> parent_get (env_parent env') k = k)"
  using find_loop_wf[OF assms, of key] by (auto simp: VarEnv_find_def)

lemma parent_wf_link:
  assumes "parent_wf par" "parent_get par ra = ra" "ra \<noteq> rb"
  shows "parent_wf (AList.update rb ra par)"
proof -
  have "(rb, ra) \<notin> (parent_rel par)\<^sup>*"
  proof
    assume "(rb, ra) \<in> (parent_rel par)\<^sup>*"
    with assms(3) have "(rb, ra) \<in> (parent_rel par)\<^sup>+" by (auto simp: rtrancl_eq_or_trancl)
    then obtain z where "(z, ra) \<in> parent_rel par" by (auto dest: tranclD2)
    with assms(2) show False by (auto simp: parent_rel_def)
  qed
  with assms(1) have w: "wf (insert (ra, rb) (parent_rel par))"
    by (simp add: parent_wf_def wf_insert)
  have "parent_rel (AList.update rb ra par) \<subseteq> insert (ra, rb) (parent_rel par)"
    by (auto simp: parent_rel_def parent_get_update split: if_splits)
  with w show ?thesis unfolding parent_wf_def by (rule wf_subset)
qed

lemma VarEnv_union_ok:
  assumes "parent_wf (env_parent env)"
  shows "\<exists>env'. VarEnv_union a b env = Inr env' \<and> parent_wf (env_parent env') \<and>
     env_map env' = env_map env \<and> env_counter env' = env_counter env"
proof -
  from VarEnv_find_ok[OF assms, of a] obtain ra env1 where
    1: "VarEnv_find a env = Inr (ra, env1)" "parent_wf (env_parent env1)"
       "parent_get (env_parent env1) ra = ra" "env_map env1 = env_map env"
       "env_counter env1 = env_counter env" by blast
  from VarEnv_find_ok[OF 1(2), of b] obtain rb env2 where
    2: "VarEnv_find b env1 = Inr (rb, env2)" "parent_wf (env_parent env2)"
       "env_map env2 = env_map env1" "env_counter env2 = env_counter env1"
       "\<forall>k. parent_get (env_parent env1) k = k \<longrightarrow> parent_get (env_parent env2) k = k" by blast
  from 1(3) 2(5) have ra: "parent_get (env_parent env2) ra = ra" by simp
  show ?thesis
  proof (cases "ra = rb")
    case True
    with 1 2 show ?thesis by (simp add: VarEnv_union_def)
  next
    case False
    from parent_wf_link[OF 2(2) ra False] 1 2 False show ?thesis
      by (simp add: VarEnv_union_def)
  qed
qed


section \<open>Variable names: properties\<close>

text \<open>
  A capitalized column name has no underscore, \<open>str\<close> is injective on the naturals, and
  so a name with the suffix \<open>_N\<close>, \<open>N\<close> above the counter, is none of the names in use.
\<close>

lemma to_upper_underscore: "c \<noteq> CHR ''_'' \<Longrightarrow> to_upper c \<noteq> CHR ''_''"
proof -
  assume c: "c \<noteq> CHR ''_''"
  show ?thesis
  proof (cases "map_of (zip lower_letters upper_letters) c")
    case None
    with c show ?thesis by (simp add: to_upper_def)
  next
    case (Some u)
    then have "u \<in> set upper_letters" by (auto dest!: map_of_SomeD set_zip_rightD)
    then have "u \<noteq> CHR ''_''" by (auto simp: upper_letters_def)
    with Some show ?thesis by (simp add: to_upper_def)
  qed
qed

lemma to_lower_underscore: "c \<noteq> CHR ''_'' \<Longrightarrow> to_lower c \<noteq> CHR ''_''"
proof -
  assume c: "c \<noteq> CHR ''_''"
  show ?thesis
  proof (cases "map_of (zip upper_letters lower_letters) c")
    case None
    with c show ?thesis by (simp add: to_lower_def)
  next
    case (Some u)
    then have "u \<in> set lower_letters" by (auto dest!: map_of_SomeD set_zip_rightD)
    then have "u \<noteq> CHR ''_''" by (auto simp: lower_letters_def)
    with Some show ?thesis by (simp add: to_lower_def)
  qed
qed

lemma capitalize_underscore_free:
  assumes "underscore_free p"
  shows "underscore_free (capitalize p)"
proof (cases p)
  case Nil
  then show ?thesis by (simp add: underscore_free_def)
next
  case (Cons c cs)
  with assms have c: "c \<noteq> CHR ''_''" and cs: "\<forall>x \<in> set cs. x \<noteq> CHR ''_''"
    by (auto simp: underscore_free_def)
  from cs have "\<forall>y \<in> set (map to_lower cs). y \<noteq> CHR ''_''"
    using to_lower_underscore by auto
  moreover from c have "to_upper c \<noteq> CHR ''_''" by (rule to_upper_underscore)
  ultimately show ?thesis using Cons by (auto simp: underscore_free_def)
qed

lemma split_on_parts: "p \<in> set (split_on sep s) \<Longrightarrow> sep \<notin> set p"
  by (induction s arbitrary: p) (auto split: if_splits list.splits)

lemma column_to_variable_underscore_free: "underscore_free (column_to_variable n)"
proof -
  have "\<forall>p \<in> set (split_on CHR ''_'' n). underscore_free (capitalize p)"
    using split_on_parts capitalize_underscore_free by (auto simp: underscore_free_def)
  then show ?thesis
    by (auto simp: column_to_variable_def snake_to_camel_def underscore_free_def)
qed

lemma digit_char_digit: "d < 10 \<Longrightarrow> digit_char d \<in> set ''0123456789''"
  unfolding digit_char_def by (rule nth_mem) simp

lemma str_nat_digits: "set (str_nat n) \<subseteq> set ''0123456789''"
proof (induction n rule: str_nat.induct)
  case (1 n)
  show ?case
  proof (cases "n < 10")
    case True
    then show ?thesis using digit_char_digit[of n] by (subst str_nat.simps) simp
  next
    case False
    have "n mod 10 < 10" by simp
    from digit_char_digit[OF this] 1[OF False] False show ?thesis
      by (subst str_nat.simps) simp
  qed
qed

lemma str_nat_underscore_free: "underscore_free (str_nat n)"
  using str_nat_digits[of n] by (auto simp: underscore_free_def)

lemma digit_val_digit_char: "d < 10 \<Longrightarrow> digit_val (digit_char d) = d"
proof -
  assume "d < 10"
  then have "d = 0 \<or> d = 1 \<or> d = 2 \<or> d = 3 \<or> d = 4 \<or> d = 5 \<or> d = 6 \<or> d = 7 \<or> d = 8 \<or> d = 9"
    by arith
  then show ?thesis by (elim disjE) (simp_all add: digit_val_def digit_char_def)
qed

lemma nat_of_str_snoc: "nat_of_str (s @ [c]) = 10 * nat_of_str s + digit_val c"
  by (simp add: nat_of_str_def)

lemma nat_of_str_str_nat: "nat_of_str (str_nat n) = n"
proof (induction n rule: str_nat.induct)
  case (1 n)
  show ?case
  proof (cases "n < 10")
    case True
    then show ?thesis
      by (subst str_nat.simps) (simp add: nat_of_str_def digit_val_digit_char)
  next
    case False
    with 1 show ?thesis
      by (subst str_nat.simps) (simp add: nat_of_str_snoc digit_val_digit_char)
  qed
qed

lemma str_nat_inj: "str_nat m = str_nat n \<Longrightarrow> m = n"
  by (metis nat_of_str_str_nat)

lemma suffix_unique:
  assumes "underscore_free b1" "underscore_free b2" "b1 @ ''_'' @ s1 = b2 @ ''_'' @ s2"
  shows "b1 = b2 \<and> s1 = s2"
proof -
  have t: "takeWhile (\<lambda>x. x \<noteq> CHR ''_'') (b @ ''_'' @ s) = b" if "underscore_free b" for b s
    using that by (induction b) (auto simp: underscore_free_def)
  from t[OF assms(1), of s1] t[OF assms(2), of s2] assms(3) have "b1 = b2" by simp
  with assms(3) show ?thesis by simp
qed

lemma name_ok_mono:
  assumes "name_ok c v" "c \<le> c'"
  shows "name_ok c' v"
proof (cases "underscore_free v")
  case True
  then show ?thesis by (simp add: name_ok_def)
next
  case False
  with assms(1) obtain b m where "v = b @ ''_'' @ str_nat m" "underscore_free b" "m \<le> c"
    unfolding name_ok_def by blast
  with assms(2) have "v = b @ ''_'' @ str_nat m \<and> underscore_free b \<and> m \<le> c'" by simp
  then show ?thesis unfolding name_ok_def by blast
qed

lemma suffixed_name_fresh:
  assumes "underscore_free var" "\<forall>u \<in> set used. name_ok c u"
  shows "var @ ''_'' @ str_nat (c + 1) \<notin> set used"
proof
  assume "var @ ''_'' @ str_nat (c + 1) \<in> set used"
  with assms(2) have "name_ok c (var @ ''_'' @ str_nat (c + 1))" by blast
  then show False
    unfolding name_ok_def
  proof (elim disjE exE conjE)
    assume "underscore_free (var @ ''_'' @ str_nat (c + 1))"
    then show False by (simp add: underscore_free_def)
  next
    fix b m assume e: "var @ ''_'' @ str_nat (c + 1) = b @ ''_'' @ str_nat m"
      "underscore_free b" "m \<le> c"
    from suffix_unique[OF assms(1) e(2) e(1)] have "str_nat (c + 1) = str_nat m" by simp
    from str_nat_inj[OF this] e(3) show False by simp
  qed
qed


lemma update_absent: "map_of al k = None \<Longrightarrow> AList.update k v al = al @ [(k, v)]"
  by (induction al) (auto split: if_splits)

lemma map_of_snoc_absent: "map_of al k = None \<Longrightarrow> map_of (al @ [(k, v)]) k = Some v"
  by (induction al) (auto split: if_splits)

lemma bind_root_props:
  assumes "env_ok env" and b: "bind_root root n env = (v, env')"
  shows "env_ok env' \<and> env_parent env' = env_parent env \<and>
    map_of (env_map env') root = Some v \<and>
    (env_map env' = env_map env \<and> env_counter env' = env_counter env \<or>
     map_of (env_map env) root = None \<and> env_map env' = env_map env @ [(root, v)] \<and>
     v \<notin> set (map snd (env_map env)) \<and>
     (if column_to_variable n \<in> set (map snd (env_map env))
      then v = column_to_variable n @ ''_'' @ str_nat (env_counter env + 1) \<and>
           env_counter env' = env_counter env + 1
      else v = column_to_variable n \<and> env_counter env' = env_counter env))"
proof (cases "map_of (env_map env) root")
  case (Some u)
  with b have "v = u" "env' = env" by (simp_all add: bind_root_def)
  with Some assms(1) show ?thesis by simp
next
  case None
  let ?var = "column_to_variable n"
  let ?used = "map snd (env_map env)"
  from assms(1) have wf: "parent_wf (env_parent env)" and d: "distinct ?used"
    and ok: "\<forall>u \<in> set ?used. name_ok (env_counter env) u"
    by (simp_all add: env_ok_def)
  show ?thesis
  proof (cases "?var \<in> set ?used")
    case True
    let ?v = "?var @ ''_'' @ str_nat (env_counter env + 1)"
    from b None True have v: "v = ?v"
      and e: "env' = env\<lparr>env_map := AList.update root ?v (env_map env),
                          env_counter := env_counter env + 1\<rparr>"
      by (auto simp: bind_root_def Let_def)
    have fresh: "?v \<notin> set ?used"
      using suffixed_name_fresh[OF column_to_variable_underscore_free ok] .
    have okv: "name_ok (env_counter env + 1) ?v"
      unfolding name_ok_def using column_to_variable_underscore_free by blast
    have ok': "\<forall>u \<in> set ?used. name_ok (env_counter env + 1) u"
      using ok name_ok_mono by (metis le_add1)
    from e have m: "env_map env' = env_map env @ [(root, ?v)]"
      by (simp add: update_absent[OF None])
    have "env_ok env'"
      unfolding env_ok_def using wf d fresh okv ok' e m by auto
    with v e m fresh True None map_of_snoc_absent[OF None, of ?v] show ?thesis by simp
  next
    case False
    from b None False have v: "v = ?var"
      and e: "env' = env\<lparr>env_map := AList.update root ?var (env_map env)\<rparr>"
      by (auto simp: bind_root_def Let_def)
    have okv: "name_ok (env_counter env) ?var"
      unfolding name_ok_def using column_to_variable_underscore_free by blast
    from e have m: "env_map env' = env_map env @ [(root, ?var)]"
      by (simp add: update_absent[OF None])
    have "env_ok env'"
      unfolding env_ok_def using wf d False okv ok e m by auto
    with v e m False None map_of_snoc_absent[OF None, of ?var] show ?thesis by simp
  qed
qed

lemma env_ok_find:
  assumes "env_ok env"
  shows "\<exists>root env1. VarEnv_find key env = Inr (root, env1) \<and> env_ok env1 \<and>
     env_map env1 = env_map env \<and> env_counter env1 = env_counter env"
  using VarEnv_find_ok[of env key] assms by (auto simp: env_ok_def)

lemma env_ok_injective:
  assumes "env_ok env" "k1 \<noteq> k2" "map_of (env_map env) k1 = Some v1"
    "map_of (env_map env) k2 = Some v2"
  shows "v1 \<noteq> v2"
proof
  assume "v1 = v2"
  from assms(3,4) have "(k1, v1) \<in> set (env_map env)" "(k2, v2) \<in> set (env_map env)"
    by (auto dest: map_of_SomeD)
  moreover from assms(1) have "inj_on snd (set (env_map env))"
    by (simp add: env_ok_def distinct_map)
  ultimately have "(k1, v1) = (k2, v2)"
    using \<open>v1 = v2\<close> inj_onD[of snd "set (env_map env)" "(k1, v1)" "(k2, v2)"] by simp
  with assms(2) show False by simp
qed

text \<open>
  C6. In a well-formed environment \<open>get_var\<close> returns, and leaves a well-formed
  environment in which different keys have different variables. Either the root had a
  variable and the map and counter are unchanged, or the root is new in the map and gets a
  name that no key has yet: the capitalized column name when it is free, and otherwise that
  name followed by \<open>_N\<close> with \<open>N\<close> the counter plus one, which becomes the counter.
  The result is a function of the environment and the column, so the same sequence of calls
  gives the same names.
\<close>

theorem get_var_fresh_name:
  assumes "env_ok env"
  shows "\<exists>v env'. VarEnv_get_var (Column relation name ref_alias) env = Inr (v, env') \<and>
    env_ok env' \<and>
    (\<forall>k1 k2 v1 v2. k1 \<noteq> k2 \<and> map_of (env_map env') k1 = Some v1 \<and>
        map_of (env_map env') k2 = Some v2 \<longrightarrow> v1 \<noteq> v2) \<and>
    (env_map env' = env_map env \<and> env_counter env' = env_counter env \<or>
     (\<exists>root. map_of (env_map env) root = None \<and> env_map env' = env_map env @ [(root, v)]) \<and>
     v \<notin> set (map snd (env_map env)) \<and>
     (if column_to_variable name \<in> set (map snd (env_map env))
      then v = column_to_variable name @ ''_'' @ str_nat (env_counter env + 1) \<and>
           env_counter env' = env_counter env + 1
      else v = column_to_variable name \<and> env_counter env' = env_counter env))"
proof -
  from env_ok_find[OF assms, of "column_key relation name ref_alias"] obtain root env1 where
    f: "VarEnv_find (column_key relation name ref_alias) env = Inr (root, env1)" "env_ok env1"
       "env_map env1 = env_map env" "env_counter env1 = env_counter env" by blast
  obtain v env' where b: "bind_root root name env1 = (v, env')" by (cases "bind_root root name env1")
  from bind_root_props[OF f(2) b] have p: "env_ok env'"
    "env_map env' = env_map env1 \<and> env_counter env' = env_counter env1 \<or>
     map_of (env_map env1) root = None \<and> env_map env' = env_map env1 @ [(root, v)] \<and>
     v \<notin> set (map snd (env_map env1)) \<and>
     (if column_to_variable name \<in> set (map snd (env_map env1))
      then v = column_to_variable name @ ''_'' @ str_nat (env_counter env1 + 1) \<and>
           env_counter env' = env_counter env1 + 1
      else v = column_to_variable name \<and> env_counter env' = env_counter env1)"
    by simp_all
  have g: "VarEnv_get_var (Column relation name ref_alias) env = Inr (v, env')"
    using f(1) b by simp
  have inj: "\<forall>k1 k2 v1 v2. k1 \<noteq> k2 \<and> map_of (env_map env') k1 = Some v1 \<and>
        map_of (env_map env') k2 = Some v2 \<longrightarrow> v1 \<noteq> v2"
    using env_ok_injective[OF p(1)] by blast
  note q = p(2)[unfolded f(3) f(4)]
  have "env_map env' = env_map env \<and> env_counter env' = env_counter env \<or>
     (\<exists>root. map_of (env_map env) root = None \<and> env_map env' = env_map env @ [(root, v)]) \<and>
     v \<notin> set (map snd (env_map env)) \<and>
     (if column_to_variable name \<in> set (map snd (env_map env))
      then v = column_to_variable name @ ''_'' @ str_nat (env_counter env + 1) \<and>
           env_counter env' = env_counter env + 1
      else v = column_to_variable name \<and> env_counter env' = env_counter env)"
    using q by blast
  with g p(1) inj show ?thesis by blast
qed


lemma parent_wf_empty: "parent_wf []"
  by (simp add: parent_wf_def parent_rel_def parent_get_def)

lemma env_ok_env_with_x: "env_ok env_with_x"
  by (simp add: env_ok_def env_with_x_def parent_wf_empty name_ok_def underscore_free_def)

lemma get_var_env_with_x:
  "VarEnv_get_var (Column ''b'' ''x'' None) env_with_x =
     Inr (''X_1'', \<lparr>env_map = [(''a.x'', ''X''), (''b.x'', ''X_1'')], env_counter = 1,
                     env_parent = []\<rparr>)"
  by code_simp

theorem get_var_fresh_name_witness:
  "env_ok env_with_x \<and>
   VarEnv_get_var (Column ''b'' ''x'' None) env_with_x =
     Inr (''X_1'', \<lparr>env_map = [(''a.x'', ''X''), (''b.x'', ''X_1'')], env_counter = 1,
                     env_parent = []\<rparr>) \<and>
   env_ok \<lparr>env_map = [(''a.x'', ''X''), (''b.x'', ''X_1'')], env_counter = 1, env_parent = []\<rparr>"
  using get_var_fresh_name[OF env_ok_env_with_x, of "''b''" "''x''" None]
    env_ok_env_with_x get_var_env_with_x by auto


text \<open>
  The environment a compilation starts from is well-formed, and \<open>unify\<close> and
  \<open>lookup\<close> return, like \<open>get_var\<close>, and keep it well-formed: every environment
  built by these calls from the empty one is well-formed.
\<close>

lemma env_ok_empty: "env_ok empty_env"
  by (simp add: env_ok_def empty_env_def parent_wf_empty)

lemma env_ok_union:
  assumes "env_ok env"
  shows "\<exists>env'. VarEnv_union a b env = Inr env' \<and> env_ok env'"
  using VarEnv_union_ok[of env a b] assms by (auto simp: env_ok_def)

lemma env_ok_unify:
  assumes "env_ok env"
  shows "\<exists>v env'. VarEnv_unify (Column r1 n1 a1) (Column r2 n2 a2) env = Inr (v, env') \<and>
           env_ok env'"
proof -
  from env_ok_union[OF assms, of "column_key r1 n1 a1" "column_key r2 n2 a2"] obtain env1 where
    u: "VarEnv_union (column_key r1 n1 a1) (column_key r2 n2 a2) env = Inr env1" "env_ok env1"
    by blast
  from env_ok_find[OF u(2), of "column_key r1 n1 a1"] obtain root env2 where
    f: "VarEnv_find (column_key r1 n1 a1) env1 = Inr (root, env2)" "env_ok env2" by blast
  obtain v env' where b: "bind_root root n1 env2 = (v, env')" by (cases "bind_root root n1 env2")
  from bind_root_props[OF f(2) b] have "env_ok env'" by simp
  with u f b show ?thesis by (simp add: Let_def)
qed

lemma env_ok_lookup:
  assumes "env_ok env"
  shows "\<exists>v env'. VarEnv_lookup (Column r n a) env = Inr (v, env') \<and> env_ok env'"
  using env_ok_find[OF assms, of "column_key r n a"] by auto


section \<open>Condition compilation: properties\<close>

text \<open>
  In a well-formed environment every method of the environment and every compilation
  function ends: it raises a Python exception or returns a well-formed environment.
\<close>

lemma ends_well_Inr [simp]: "ends_well (Inr (x, env')) = parent_wf (env_parent env')"
  by (simp add: ends_well_def)

lemma ends_well_Inl [simp]: "ends_well (Inl e) = (e \<noteq> NonTermination)"
  by (simp add: ends_well_def)

lemma bind_root_parent: "env_parent (snd (bind_root root n env)) = env_parent env"
  by (auto simp: bind_root_def Let_def split: option.splits)

lemma get_var_wf:
  assumes "parent_wf (env_parent env)"
  shows "\<exists>v env'. VarEnv_get_var (Column r n a) env = Inr (v, env') \<and>
           parent_wf (env_parent env')"
proof -
  from VarEnv_find_ok[OF assms, of "column_key r n a"] obtain root env1 where
    f: "VarEnv_find (column_key r n a) env = Inr (root, env1)" "parent_wf (env_parent env1)"
    by blast
  obtain v env' where b: "bind_root root n env1 = (v, env')" by (cases "bind_root root n env1")
  with bind_root_parent[of root n env1] f(2) have "parent_wf (env_parent env')" by simp
  with f b show ?thesis by simp
qed

lemma lookup_wf:
  assumes "parent_wf (env_parent env)"
  shows "\<exists>v env'. VarEnv_lookup (Column r n a) env = Inr (v, env') \<and>
           parent_wf (env_parent env')"
  using VarEnv_find_ok[OF assms, of "column_key r n a"] by auto

lemma unify_wf:
  assumes "parent_wf (env_parent env)"
  shows "\<exists>v env'. VarEnv_unify (Column r1 n1 a1) (Column r2 n2 a2) env = Inr (v, env') \<and>
           parent_wf (env_parent env')"
proof -
  from VarEnv_union_ok[OF assms, of "column_key r1 n1 a1" "column_key r2 n2 a2"] obtain env1
    where u: "VarEnv_union (column_key r1 n1 a1) (column_key r2 n2 a2) env = Inr env1"
      "parent_wf (env_parent env1)" by blast
  from VarEnv_find_ok[OF u(2), of "column_key r1 n1 a1"] obtain root env2 where
    f: "VarEnv_find (column_key r1 n1 a1) env1 = Inr (root, env2)" "parent_wf (env_parent env2)"
    by blast
  obtain v env' where b: "bind_root root n1 env2 = (v, env')" by (cases "bind_root root n1 env2")
  with bind_root_parent[of root n1 env2] f(2) have "parent_wf (env_parent env')" by simp
  with u f b show ?thesis by (simp add: Let_def)
qed

lemma get_var_ends_well:
  assumes "parent_wf (env_parent env)"
  shows "ends_well (VarEnv_get_var c env)"
proof (cases c)
  case (Column r n a)
  from get_var_wf[OF assms, of r n a] obtain v env' where
    g: "VarEnv_get_var (Column r n a) env = Inr (v, env')" "parent_wf (env_parent env')"
    by blast
  show ?thesis unfolding Column g(1) using g(2) by simp
qed simp_all

lemma unify_ends_well:
  assumes "parent_wf (env_parent env)"
  shows "ends_well (VarEnv_unify a b env)"
proof (cases "is_column a \<and> is_column b")
  case True
  then obtain r1 n1 a1 r2 n2 a2 where c: "a = Column r1 n1 a1" "b = Column r2 n2 a2"
    by (cases a; cases b) auto
  from unify_wf[OF assms, of r1 n1 a1 r2 n2 a2] obtain v env' where
    g: "VarEnv_unify (Column r1 n1 a1) (Column r2 n2 a2) env = Inr (v, env')"
       "parent_wf (env_parent env')"
    by blast
  show ?thesis unfolding c g(1) using g(2) by simp
next
  case False
  then have "VarEnv_unify a b env = Inl AttributeError" by (cases a; cases b) auto
  then show ?thesis by simp
qed

lemma compile_value_error:
  "compile_value v = Inl e \<Longrightarrow> e = TypeError ''Cannot compile value''"
  "compile_values vs = Inl e \<Longrightarrow> e = TypeError ''Cannot compile value''"
  by (induction v and vs arbitrary: e and e rule: compile_value_compile_values.induct)
     (auto split: sum.splits if_splits)

lemma compile_value_terminates [simp]:
  "compile_value v \<noteq> Inl NonTermination" "compile_values vs \<noteq> Inl NonTermination"
  using compile_value_error by fastforce+

lemma compile_expr_ends_well:
  "parent_wf (env_parent env) \<Longrightarrow> ends_well (compile_expr e env)"
  "parent_wf (env_parent env) \<Longrightarrow> ends_well (compile_exprs es env)"
proof (induction e env and es env rule: compile_expr_compile_exprs.induct)
  case (1 relation name ref_alias env)
  then show ?case using get_var_ends_well by (simp del: VarEnv_get_var.simps)
next
  case (2 v env)
  then show ?case by (cases "compile_value v") auto
next
  case (3 op l r env)
  note ih1 = 3(1)[OF 3(3)] and ih2 = 3(2)[OF _ refl]
  show ?case using ih1 ih2 by (auto split: sum.splits)
next
  case (4 name args env)
  note ih1 = 4(1)[OF 4(2)]
  show ?case using ih1 by (auto split: sum.splits)
next
  case (5 column descending env)
  note ih1 = 5(1)[OF 5(2)]
  show ?case using ih1 by (auto split: sum.splits)
next
  case (6 func column params passthrough order_column desc env)
  note ih1 = 6(1)[OF _ 6(4)] and ihc = 6(2)[OF _ _ refl] and iho = 6(3)[OF _ _ refl]
  show ?case
  proof (cases "compile_values params")
    case (Inl e)
    with compile_value_error(2)[OF Inl] show ?thesis by simp
  next
    case (Inr ps)
    note i1 = ih1[OF Inr]
    show ?thesis
    proof (cases "compile_exprs passthrough env")
      case (Inl e)
      with i1 Inr show ?thesis by simp
    next
      case pt: (Inr q)
      obtain pts env1 where q: "q = (pts, env1)" by (cases q)
      from i1 pt q have w1: "parent_wf (env_parent env1)" by simp
      show ?thesis
      proof (cases order_column)
        case (Some oc)
        from iho[OF Inr pt[unfolded q] Some w1] Inr pt q Some show ?thesis
          by (auto split: sum.splits)
      next
        case None
        show ?thesis
        proof (cases column)
          case c: (Some c)
          from ihc[OF Inr pt[unfolded q] None c w1] Inr pt q None c show ?thesis
            by (auto split: sum.splits)
        next
          case n: None
          with Inr pt q None w1 show ?thesis by simp
        qed
      qed
    qed
  qed
next
  case (7 env)
  then show ?case by simp
next
  case (8 env)
  then show ?case by simp
next
  case (9 a as env)
  note ih1 = 9(1)[OF 9(3)] and ih2 = 9(2)[OF _ refl]
  show ?case using ih1 ih2 by (auto split: sum.splits)
qed


lemma compile_value_ok:
  "value_ok v \<Longrightarrow> \<exists>s. compile_value v = Inr s"
  "list_all value_ok vs \<Longrightarrow> \<exists>ss. compile_values vs = Inr ss"
  by (induction v and vs rule: compile_value_compile_values.induct) auto

lemma ends_well_InrD:
  "ends_well r \<Longrightarrow> r = Inr (x, env') \<Longrightarrow> parent_wf (env_parent env')"
  by simp

lemma compile_expr_ok:
  "expr_ok e \<Longrightarrow> parent_wf (env_parent env) \<Longrightarrow> \<exists>p. compile_expr e env = Inr p"
  "list_all expr_ok es \<Longrightarrow> parent_wf (env_parent env) \<Longrightarrow> \<exists>p. compile_exprs es env = Inr p"
proof (induction e env and es env rule: compile_expr_compile_exprs.induct)
  case (1 relation name ref_alias env)
  from get_var_wf[OF 1(2), of relation name ref_alias] show ?case
    by (auto simp del: VarEnv_get_var.simps)
next
  case (2 v env)
  then show ?case using compile_value_ok(1)[of v] by auto
next
  case (3 op l r env)
  from 3(1)[OF _ 3(4)] 3(3) obtain left env1 where l: "compile_expr l env = Inr (left, env1)"
    by auto
  from compile_expr_ends_well(1)[OF 3(4), of l] l have w1: "parent_wf (env_parent env1)" by simp
  from 3(2)[OF l refl _ w1] 3(3) obtain p where "compile_expr r env1 = Inr p" by auto
  with l show ?case by (cases p) simp
next
  case (4 name args env)
  from 4(1)[OF _ 4(3)] 4(2) obtain p where "compile_exprs args env = Inr p" by auto
  then show ?case by (cases p) simp
next
  case (5 column descending env)
  from 5(1)[OF _ 5(3)] 5(2) obtain p where "compile_expr column env = Inr p" by auto
  then show ?case by (cases p) simp
next
  case (6 func column params passthrough order_column desc env)
  note ihp = 6(1)[OF _ _ 6(5)] and ihc = 6(2)[OF _ _ refl] and iho = 6(3)[OF _ _ refl]
  from 6(4) have ok: "list_all value_ok params" "list_all expr_ok passthrough" by simp_all
  from compile_value_ok(2)[OF ok(1)] obtain ps where ps: "compile_values params = Inr ps"
    by blast
  from ihp[OF ps ok(2)] obtain pts env1 where
    pt: "compile_exprs passthrough env = Inr (pts, env1)" by auto
  from compile_expr_ends_well(2)[OF 6(5), of passthrough] pt
  have w1: "parent_wf (env_parent env1)" by simp
  show ?case
  proof (cases order_column)
    case (Some oc)
    with 6(4) have "expr_ok oc" by simp
    from iho[OF ps pt Some this w1] obtain p where "compile_expr oc env1 = Inr p" by blast
    with ps pt Some show ?thesis by (cases p) simp
  next
    case None
    show ?thesis
    proof (cases column)
      case c: (Some c)
      with 6(4) None have "expr_ok c" by simp
      from ihc[OF ps pt None c this w1] obtain p where "compile_expr c env1 = Inr p" by blast
      with ps pt None c show ?thesis by (cases p) simp
    next
      case n: None
      with ps pt None show ?thesis by simp
    qed
  qed
next
  case (7 env)
  then show ?case by simp
next
  case (8 env)
  then show ?case by simp
next
  case (9 a as env)
  from 9(1)[OF _ 9(4)] 9(3) obtain part env1 where a: "compile_expr a env = Inr (part, env1)"
    by auto
  from compile_expr_ends_well(1)[OF 9(4), of a] a have w1: "parent_wf (env_parent env1)" by simp
  from 9(2)[OF a refl _ w1] 9(3) obtain p where "compile_exprs as env1 = Inr p" by auto
  with a show ?case by (cases p) simp
qed


lemma compile_comparison_ends_well:
  assumes "parent_wf (env_parent env)"
  shows "ends_well (compile_comparison op l r env)"
proof (cases "op = ''='' \<and> is_column l \<and> is_column r")
  case True
  with unify_ends_well[OF assms, of l r] show ?thesis
    by (auto simp: compile_comparison_def split: sum.splits)
next
  case False
  show ?thesis
  proof (cases "compile_expr l env")
    case (Inl e)
    with compile_expr_ends_well(1)[OF assms, of l] False show ?thesis
      by (auto simp: compile_comparison_def)
  next
    case (Inr p)
    obtain s env1 where p: "p = (s, env1)" by (cases p)
    from compile_expr_ends_well(1)[OF assms, of l] Inr p
    have w1: "parent_wf (env_parent env1)" by simp
    from compile_expr_ends_well(1)[OF w1, of r] Inr p False show ?thesis
      by (auto simp: compile_comparison_def split: sum.splits)
  qed
qed

lemma compile_comparison_ok:
  assumes "parent_wf (env_parent env)" "expr_ok l" "expr_ok r"
  shows "\<exists>p. compile_comparison op l r env = Inr p"
proof (cases "op = ''='' \<and> is_column l \<and> is_column r")
  case True
  then obtain r1 n1 a1 r2 n2 a2 where c: "l = Column r1 n1 a1" "r = Column r2 n2 a2"
    by (cases l; cases r) auto
  from unify_wf[OF assms(1), of r1 n1 a1 r2 n2 a2] obtain v env' where
    "VarEnv_unify l r env = Inr (v, env')" unfolding c by blast
  with True show ?thesis by (simp add: compile_comparison_def)
next
  case False
  from compile_expr_ok(1)[OF assms(2,1)] obtain s env1 where
    l: "compile_expr l env = Inr (s, env1)" by auto
  from compile_expr_ends_well(1)[OF assms(1), of l] l
  have w1: "parent_wf (env_parent env1)" by simp
  from compile_expr_ok(1)[OF assms(3) w1] obtain q where "compile_expr r env1 = Inr q" by auto
  with l False show ?thesis by (cases q) (auto simp: compile_comparison_def)
qed

lemma compile_in_ends_well:
  assumes "parent_wf (env_parent env)"
  shows "ends_well (compile_in c t neg env)"
proof (cases "compile_expr c env")
  case (Inl e)
  with compile_expr_ends_well(1)[OF assms, of c] show ?thesis by (simp add: compile_in_def)
next
  case (Inr p)
  obtain s env1 where p: "p = (s, env1)" by (cases p)
  from compile_expr_ends_well(1)[OF assms, of c] Inr p
  have w1: "parent_wf (env_parent env1)" by simp
  show ?thesis
  proof (cases "is_column t")
    case False
    with Inr p show ?thesis by (simp add: compile_in_def)
  next
    case True
    then obtain rt nt at where t: "t = Column rt nt at" by (cases t) auto
    from get_var_wf[OF w1, of rt nt at] obtain v2 env2 where
      g2: "VarEnv_get_var t env1 = Inr (v2, env2)" "parent_wf (env_parent env2)"
      unfolding t by blast
    show ?thesis
    proof (cases "VarEnv_unify c t env2")
      case (Inl e)
      with unify_ends_well[OF g2(2), of c t] Inr p True g2 show ?thesis
        by (simp add: compile_in_def)
    next
      case u: (Inr q)
      obtain v3 env3 where q: "q = (v3, env3)" by (cases q)
      from unify_ends_well[OF g2(2), of c t] u q
      have w3: "parent_wf (env_parent env3)" by simp
      from get_var_wf[OF w3, of rt nt at] obtain v4 env4 where
        g4: "VarEnv_get_var t env3 = Inr (v4, env4)" "parent_wf (env_parent env4)"
        unfolding t by blast
      from Inr p True g2 u q g4 show ?thesis by (simp add: compile_in_def)
    qed
  qed
qed

lemma compile_in_ok:
  assumes "parent_wf (env_parent env)" "is_column c" "is_column t"
  shows "\<exists>p. compile_in c t neg env = Inr p"
proof -
  from assms(2,3) obtain rc nc ac rt nt at where
    c: "c = Column rc nc ac" and t: "t = Column rt nt at" by (cases c; cases t) auto
  from get_var_wf[OF assms(1), of rc nc ac] obtain s env1 where
    1: "compile_expr c env = Inr (s, env1)" "parent_wf (env_parent env1)"
    unfolding c by auto
  from get_var_wf[OF 1(2), of rt nt at] obtain v2 env2 where
    2: "VarEnv_get_var t env1 = Inr (v2, env2)" "parent_wf (env_parent env2)"
    unfolding t by blast
  from unify_wf[OF 2(2), of rc nc ac rt nt at] obtain v3 env3 where
    3: "VarEnv_unify c t env2 = Inr (v3, env3)" "parent_wf (env_parent env3)"
    unfolding c t by blast
  from get_var_wf[OF 3(2), of rt nt at] obtain v4 env4 where
    4: "VarEnv_get_var t env3 = Inr (v4, env4)" "parent_wf (env_parent env4)"
    unfolding t by blast
  from 1 2 3 4 assms(3) show ?thesis by (simp add: compile_in_def)
qed

lemma compile_match_ends_well:
  assumes "parent_wf (env_parent env)"
  shows "ends_well (compile_match rel bindings neg env)"
  using compile_expr_ends_well(2)[OF assms, of "map snd bindings"]
  by (auto simp: compile_match_def split: sum.splits)

lemma compile_match_ok:
  assumes "parent_wf (env_parent env)" "list_all expr_ok (map snd bindings)"
  shows "\<exists>p. compile_match rel bindings neg env = Inr p"
  using compile_expr_ok(2)[OF assms(2,1)]
  by (auto simp: compile_match_def split: sum.splits)

lemma compile_bool_expr_ends_well:
  "parent_wf (env_parent env) \<Longrightarrow> ends_well (compile_bool_expr B env)"
proof (induction B env rule: compile_bool_expr.induct)
  case (1 op left right env)
  with compile_comparison_ends_well[OF 1, of op left right] show ?case
    by (auto split: sum.splits)
next
  case (2 left right env)
  note ih1 = 2(1)[OF 2(3)] and ih2 = 2(2)[OF _ refl]
  show ?case using ih1 ih2 by (auto split: sum.splits)
next
  case (3 left right env)
  then show ?case by simp
next
  case (4 operand env)
  note ih1 = 4(1)[OF 4(2)]
  show ?case using ih1 by (auto split: sum.splits)
next
  case (5 column target_column env)
  with compile_in_ends_well[OF 5, of column target_column False] show ?case
    by (auto split: sum.splits)
next
  case (6 column target_column env)
  with compile_in_ends_well[OF 6, of column target_column True] show ?case
    by (auto split: sum.splits)
next
  case (7 relation bindings negated env)
  with compile_match_ends_well[OF 7, of relation bindings negated] show ?case
    by (auto split: sum.splits)
next
  case (8 env)
  then show ?case by simp
qed

lemma compile_bool_expr_ok:
  "\<not> has_or B \<Longrightarrow> leaves_ok B \<Longrightarrow> parent_wf (env_parent env) \<Longrightarrow>
     \<exists>p. compile_bool_expr B env = Inr p"
proof (induction B env rule: compile_bool_expr.induct)
  case (1 op left right env)
  from compile_comparison_ok[OF 1(3), of left right op] 1(2) obtain p where
    "compile_comparison op left right env = Inr p" by auto
  then show ?case by (cases p) simp
next
  case (2 left right env)
  from 2(1)[OF _ _ 2(5)] 2(3,4) obtain ls env1 where
    l: "compile_bool_expr left env = Inr (ls, env1)" by auto
  from compile_bool_expr_ends_well[OF 2(5), of left] l
  have w1: "parent_wf (env_parent env1)" by simp
  from 2(2)[OF l refl _ _ w1] 2(3,4) obtain p where "compile_bool_expr right env1 = Inr p"
    by auto
  with l show ?case by (cases p) simp
next
  case (3 left right env)
  then show ?case by simp
next
  case (4 operand env)
  from 4(1)[OF _ _ 4(4)] 4(2,3) obtain p where "compile_bool_expr operand env = Inr p" by auto
  then show ?case by (cases p) simp
next
  case (5 column target_column env)
  from compile_in_ok[OF 5(3), of column target_column False] 5(2) obtain p where
    "compile_in column target_column False env = Inr p" by auto
  then show ?case by (cases p) simp
next
  case (6 column target_column env)
  from compile_in_ok[OF 6(3), of column target_column True] 6(2) obtain p where
    "compile_in column target_column True env = Inr p" by auto
  then show ?case by (cases p) simp
next
  case (7 relation bindings negated env)
  from compile_match_ok[OF 7(3), of bindings relation negated] 7(2) obtain p where
    "compile_match relation bindings negated env = Inr p" by auto
  then show ?case by (cases p) simp
next
  case (8 env)
  then show ?case by simp
qed

lemma compile_bool_expr_raises:
  "has_or B \<Longrightarrow> parent_wf (env_parent env) \<Longrightarrow>
     \<exists>e. compile_bool_expr B env = Inl e \<and> e \<noteq> NonTermination"
proof (induction B env rule: compile_bool_expr.induct)
  case (2 left right env)
  show ?case
  proof (cases "compile_bool_expr left env")
    case (Inl e)
    with compile_bool_expr_ends_well[OF 2(4), of left] show ?thesis by simp
  next
    case (Inr p)
    obtain ls env1 where p: "p = (ls, env1)" by (cases p)
    from compile_bool_expr_ends_well[OF 2(4), of left] Inr p
    have w1: "parent_wf (env_parent env1)" by simp
    from 2(1)[OF _ 2(4)] Inr have "\<not> has_or left" by auto
    with 2(3) have "has_or right" by simp
    from 2(2)[OF Inr[unfolded p] refl this w1] Inr p show ?thesis by auto
  qed
next
  case (4 operand env)
  from 4(1)[OF _ 4(3)] 4(2) show ?case by auto
qed simp_all

lemma compile_or_branches_length:
  "compile_or_branches B env = Inr (bs, env') \<Longrightarrow> length bs = or_count B + 1"
proof (induction B env arbitrary: bs env' rule: compile_or_branches.induct)
  case (1 left right env)
  from 1(3) obtain lb env1 rb where
    l: "compile_or_branches left env = Inr (lb, env1)"
    and r: "compile_or_branches right env1 = Inr (rb, env')" and bs: "bs = lb @ rb"
    by (auto split: sum.splits)
  from 1(1)[OF l] 1(2)[OF l refl r] bs show ?case by simp
qed (auto split: sum.splits)

lemma compile_or_branches_leaf:
  "or_count B = 0 \<Longrightarrow>
   compile_or_branches B env =
     (case compile_bool_expr B env of
        Inl e \<Rightarrow> Inl e
      | Inr (parts, env1) \<Rightarrow> Inr ([parts], env1))"
  by (cases B) simp_all

lemma compile_or_branches_leaf_ends_well:
  assumes "or_count B = 0" "parent_wf (env_parent env)"
  shows "ends_well (compile_or_branches B env)"
proof (cases "compile_bool_expr B env")
  case (Inl e)
  with compile_bool_expr_ends_well[OF assms(2), of B] show ?thesis
    by (simp add: compile_or_branches_leaf[OF assms(1)])
next
  case (Inr p)
  obtain parts env1 where p: "p = (parts, env1)" by (cases p)
  with compile_bool_expr_ends_well[OF assms(2), of B] Inr show ?thesis
    by (simp add: compile_or_branches_leaf[OF assms(1)])
qed

lemma compile_or_branches_ends_well:
  "parent_wf (env_parent env) \<Longrightarrow> ends_well (compile_or_branches B env)"
proof (induction B arbitrary: env)
  case (Or left right)
  show ?case
  proof (cases "compile_or_branches left env")
    case (Inl e)
    with Or(1)[OF Or(3)] show ?thesis by simp
  next
    case (Inr p)
    obtain lb env1 where p: "p = (lb, env1)" by (cases p)
    from Or(1)[OF Or(3)] Inr p have "parent_wf (env_parent env1)" by simp
    from Or(2)[OF this] Inr p show ?thesis by (auto split: sum.splits)
  qed
qed (simp_all add: compile_or_branches_leaf_ends_well
      del: compile_bool_expr.simps compile_or_branches.simps)

lemma compile_or_branches_ok:
  "or_on_spine B \<Longrightarrow> leaves_ok B \<Longrightarrow> parent_wf (env_parent env) \<Longrightarrow>
     \<exists>p. compile_or_branches B env = Inr p"
proof (induction B arbitrary: env)
  case (Or left right)
  from Or(1)[OF _ _ Or(5)] Or(3,4) obtain lb env1 where
    l: "compile_or_branches left env = Inr (lb, env1)" by auto
  from compile_or_branches_ends_well[OF Or(5), of left] l
  have w1: "parent_wf (env_parent env1)" by simp
  from Or(2)[OF _ _ w1] Or(3,4) obtain p where "compile_or_branches right env1 = Inr p"
    by auto
  with l show ?case by (cases p) simp
next
  case (Comparison op l r)
  from compile_bool_expr_ok[of "Comparison op l r" env] Comparison show ?case
    by (auto simp: compile_or_branches_leaf simp del: compile_bool_expr.simps)
next
  case (And l r)
  from compile_bool_expr_ok[of "And l r" env] And(3,4,5) show ?case
    by (auto simp: compile_or_branches_leaf simp del: compile_bool_expr.simps)
next
  case (NotExpr b)
  from compile_bool_expr_ok[of "NotExpr b" env] NotExpr(2,3,4) show ?case
    by (auto simp: compile_or_branches_leaf simp del: compile_bool_expr.simps)
next
  case (InExpr c t)
  from compile_bool_expr_ok[of "InExpr c t" env] InExpr show ?case
    by (auto simp: compile_or_branches_leaf simp del: compile_bool_expr.simps)
next
  case (NegatedIn c t)
  from compile_bool_expr_ok[of "NegatedIn c t" env] NegatedIn show ?case
    by (auto simp: compile_or_branches_leaf simp del: compile_bool_expr.simps)
next
  case (MatchExpr rel bs neg)
  from compile_bool_expr_ok[of "MatchExpr rel bs neg" env] MatchExpr show ?case
    by (auto simp: compile_or_branches_leaf simp del: compile_bool_expr.simps)
next
  case BoolExprBase
  then show ?case by simp
qed


text \<open>
  C2, as stated, fails in three ways. The disjunction \<open>(a or b) or c\<close> has two \<open>Or\<close>
  nodes on its root spine and \<open>compile_or_branches\<close> returns three branches, not
  \<open>2^2\<close>. For \<open>(a or b) and c\<close>, which contains an \<open>Or\<close>, \<open>compile_or_branches\<close>
  raises the \<open>ValueError\<close> of \<open>compile_bool_expr\<close>. And for the membership test of a
  literal in a column, which contains no \<open>Or\<close>, \<open>compile_bool_expr\<close> raises
  \<open>AttributeError\<close>.
\<close>

theorem or_splitting_counterexample:
  "has_or three_way_or \<and> or_count three_way_or = 2 \<and>
   map_sum id (\<lambda>(bs, env'). length bs) (compile_or_branches three_way_or empty_env) = Inr 3 \<and>
   (3::nat) \<noteq> 2 ^ or_count three_way_or \<and>
   has_or and_over_or \<and>
   compile_or_branches and_over_or empty_env =
     Inl (ValueError ''OR conditions require query splitting. Use compile_or_branches() instead.'') \<and>
   \<not> has_or literal_in_column \<and>
   compile_bool_expr literal_in_column empty_env = Inl AttributeError"
  by code_simp

text \<open>
  C2, amended. In a well-formed environment: for a condition without \<open>Or\<close> whose leaves
  the compiler supports, \<open>compile_bool_expr\<close> returns a list of literals; for a condition
  with an \<open>Or\<close>, \<open>compile_bool_expr\<close> raises an exception; and for a condition with an
  \<open>Or\<close>, all of whose \<open>Or\<close> nodes are on the root spine and whose leaves are supported,
  \<open>compile_or_branches\<close> returns \<open>k + 1\<close> branches, \<open>k\<close> the number of \<open>Or\<close> nodes
  on the root spine.
\<close>

theorem or_splitting:
  assumes "parent_wf (env_parent env)"
  shows "(\<not> has_or B \<and> leaves_ok B \<longrightarrow>
            (\<exists>parts env'. compile_bool_expr B env = Inr (parts, env'))) \<and>
         (has_or B \<longrightarrow> (\<exists>e. compile_bool_expr B env = Inl e \<and> e \<noteq> NonTermination)) \<and>
         (has_or B \<and> or_on_spine B \<and> leaves_ok B \<longrightarrow>
            (\<exists>bs env'. compile_or_branches B env = Inr (bs, env') \<and>
                        length bs = or_count B + 1))"
proof (intro conjI impI)
  assume "\<not> has_or B \<and> leaves_ok B"
  with compile_bool_expr_ok[OF _ _ assms, of B]
  show "\<exists>parts env'. compile_bool_expr B env = Inr (parts, env')" by auto
next
  assume "has_or B"
  from compile_bool_expr_raises[OF this assms]
  show "\<exists>e. compile_bool_expr B env = Inl e \<and> e \<noteq> NonTermination" .
next
  assume "has_or B \<and> or_on_spine B \<and> leaves_ok B"
  with compile_or_branches_ok[OF _ _ assms, of B] obtain bs env' where
    b: "compile_or_branches B env = Inr (bs, env')" by auto
  from compile_or_branches_length[OF b] b
  show "\<exists>bs env'. compile_or_branches B env = Inr (bs, env') \<and> length bs = or_count B + 1"
    by blast
qed

lemma parent_wf_empty_env: "parent_wf (env_parent empty_env)"
  by (simp add: empty_env_def parent_wf_def parent_rel_def parent_get_def)

theorem or_splitting_witness:
  "parent_wf (env_parent empty_env) \<and>
   \<not> has_or (dept_is ''eng'') \<and> leaves_ok (dept_is ''eng'') \<and>
   (\<exists>parts env'. compile_bool_expr (dept_is ''eng'') empty_env = Inr (parts, env')) \<and>
   has_or three_way_or \<and> or_on_spine three_way_or \<and> leaves_ok three_way_or \<and>
   (\<exists>e. compile_bool_expr three_way_or empty_env = Inl e \<and> e \<noteq> NonTermination) \<and>
   (\<exists>bs env'. compile_or_branches three_way_or empty_env = Inr (bs, env') \<and>
               length bs = or_count three_way_or + 1)"
proof -
  have 1: "\<not> has_or (dept_is ''eng'') \<and> leaves_ok (dept_is ''eng'')"
    by (simp add: dept_is_def)
  have 2: "has_or three_way_or \<and> or_on_spine three_way_or \<and> leaves_ok three_way_or"
    by (simp add: three_way_or_def dept_is_def)
  from or_splitting[OF parent_wf_empty_env, of "dept_is ''eng''"]
       or_splitting[OF parent_wf_empty_env, of three_way_or] 1 2 parent_wf_empty_env
  show ?thesis by blast
qed


section \<open>Unification: properties\<close>

text \<open>
  The loop of \<open>_find\<close> returns the root of its key and keeps the root of every key;
  \<open>_union\<close> gives its two keys one root.
\<close>

lemma root_of_is_root: "root_of par k r \<Longrightarrow> parent_get par r = r"
  by (induction rule: root_of.induct) auto

lemma root_of_functional: "root_of par k r \<Longrightarrow> root_of par k r' \<Longrightarrow> r = r'"
proof (induction arbitrary: r' rule: root_of.induct)
  case (root k)
  then show ?case by (auto elim: root_of.cases)
next
  case (step k r)
  from step(4) step(1) have "root_of par (parent_get par k) r'" by (auto elim: root_of.cases)
  with step(3) show ?case by blast
qed

lemma root_of_total:
  assumes "wf R" "parent_rel par \<subseteq> R"
  shows "\<exists>r. root_of par k r"
  using assms(1)
proof (induction k rule: wf_induct_rule)
  case (less k)
  show ?case
  proof (cases "parent_get par k = k")
    case True
    then show ?thesis by (auto intro: root_of.root)
  next
    case False
    then have "(parent_get par k, k) \<in> R" using assms(2) by (auto simp: parent_rel_def)
    from less[OF this] False show ?thesis by (auto intro: root_of.step)
  qed
qed

lemma halving_keeps_roots:
  assumes "wf R" "trans R" "parent_rel par \<subseteq> R" "parent_get par key \<noteq> key"
  shows "root_of par k r \<Longrightarrow>
         root_of (AList.update key (parent_get par (parent_get par key)) par) k r"
  using assms(1)
proof (induction k rule: wf_induct_rule)
  case (less k)
  let ?p = "parent_get par key"
  let ?gp = "parent_get par ?p"
  let ?par2 = "AList.update key ?gp par"
  from assms(3,4) have pk: "(?p, key) \<in> R" by (auto simp: parent_rel_def)
  have "?gp = ?p \<or> (?gp, ?p) \<in> R" using assms(3) by (auto simp: parent_rel_def)
  with pk have gk: "(?gp, key) \<in> R" using assms(2) by (auto dest: transD)
  with assms(1) have gne: "?gp \<noteq> key" by auto
  show ?case
  proof (cases "parent_get par k = k")
    case True
    with less(2) have "r = k" by (auto elim: root_of.cases)
    moreover from True assms(4) have "k \<noteq> key" by auto
    with True have "parent_get ?par2 k = k" by (simp add: parent_get_update)
    ultimately show ?thesis by (auto intro: root_of.root)
  next
    case False
    with less(2) have rp: "root_of par (parent_get par k) r" by (auto elim: root_of.cases)
    from False have kR: "(parent_get par k, k) \<in> R" using assms(3) by (auto simp: parent_rel_def)
    show ?thesis
    proof (cases "k = key")
      case True
      have "root_of par ?gp r"
      proof (cases "parent_get par ?p = ?p")
        case True
        with rp \<open>k = key\<close> show ?thesis by simp
      next
        case False
        with rp \<open>k = key\<close> show ?thesis by (auto elim: root_of.cases)
      qed
      from less(1)[OF gk[folded True] this[unfolded True[symmetric]]]
      have "root_of ?par2 ?gp r" using True by simp
      moreover have "parent_get ?par2 k = ?gp" using True by (simp add: parent_get_update)
      ultimately show ?thesis using gne True by (auto intro: root_of.step)
    next
      case kk: False
      from less(1)[OF kR rp] have "root_of ?par2 (parent_get par k) r" .
      moreover from kk have "parent_get ?par2 k = parent_get par k"
        by (simp add: parent_get_update)
      ultimately show ?thesis using False by (auto intro: root_of.step)
    qed
  qed
qed


lemma find_loop_root:
  assumes "wf R" "trans R"
  shows "parent_rel par \<subseteq> R \<Longrightarrow> find_loop par key = Some (par', root) \<Longrightarrow>
    root_of par key root \<and> (\<forall>k r. root_of par k r \<longrightarrow> root_of par' k r)"
  using assms(1)
proof (induction key arbitrary: par rule: wf_induct_rule)
  case (less key)
  show ?case
  proof (cases "parent_get par key = key")
    case True
    with less(3) have "par' = par" "root = key" by (subst (asm) find_loop.simps, simp)+
    with True show ?thesis by (auto intro: root_of.root)
  next
    case False
    let ?p = "parent_get par key"
    let ?gp = "parent_get par ?p"
    let ?par2 = "AList.update key ?gp par"
    from False have pk: "(?p, key) \<in> R" using less.prems by (auto simp: parent_rel_def)
    have "?gp = ?p \<or> (?gp, ?p) \<in> R" using less.prems by (auto simp: parent_rel_def)
    with pk have gk: "(?gp, key) \<in> R" using assms(2) by (auto dest: transD)
    with assms(1) have gne: "?gp \<noteq> key" by auto
    have sub: "parent_rel ?par2 \<subseteq> R"
      using less.prems gk by (auto simp: parent_rel_def parent_get_update split: if_splits)
    from less(3) False have f2: "find_loop ?par2 ?gp = Some (par', root)"
      by (subst (asm) find_loop.simps) simp
    from less(1)[OF gk sub f2] have ih: "root_of ?par2 ?gp root"
      "\<forall>k r. root_of ?par2 k r \<longrightarrow> root_of par' k r" by simp_all
    note keep = halving_keeps_roots[OF assms less(2) False]
    from root_of_total[OF assms(1) less(2), of key] obtain r0 where r0: "root_of par key r0"
      by blast
    from keep[OF r0] have "root_of ?par2 key r0" .
    moreover have "parent_get ?par2 key = ?gp" by (simp add: parent_get_update)
    ultimately have "root_of ?par2 ?gp r0" using gne by (auto elim: root_of.cases)
    from root_of_functional[OF this ih(1)] have "r0 = root" .
    with r0 ih(2) keep show ?thesis by blast
  qed
qed

lemma VarEnv_find_root:
  assumes "parent_wf (env_parent env)" "VarEnv_find key env = Inr (root, env1)"
  shows "root_of (env_parent env) key root \<and>
         (\<forall>k r. root_of (env_parent env) k r \<longrightarrow> root_of (env_parent env1) k r) \<and>
         parent_wf (env_parent env1) \<and> env_map env1 = env_map env \<and>
         parent_get (env_parent env1) root = root \<and>
         (\<forall>k. parent_get (env_parent env) k = k \<longrightarrow> parent_get (env_parent env1) k = k)"
proof -
  from assms(2) have f: "find_loop (env_parent env) key = Some (env_parent env1, root)"
    and m: "env_map env1 = env_map env"
    by (auto simp: VarEnv_find_def split: option.splits)
  have w: "wf ((parent_rel (env_parent env))\<^sup>+)"
    using assms(1) by (simp add: parent_wf_def wf_trancl)
  have sub: "parent_rel (env_parent env) \<subseteq> (parent_rel (env_parent env))\<^sup>+" by auto
  from find_loop_root[OF w trans_trancl sub f]
  have r: "root_of (env_parent env) key root"
    "\<forall>k r. root_of (env_parent env) k r \<longrightarrow> root_of (env_parent env1) k r" by simp_all
  from VarEnv_find_ok[OF assms(1), of key] assms(2)
  have "parent_wf (env_parent env1)" "parent_get (env_parent env1) root = root"
    "\<forall>k. parent_get (env_parent env) k = k \<longrightarrow> parent_get (env_parent env1) k = k"
    by auto
  with r m show ?thesis by blast
qed

lemma VarEnv_find_of_root:
  assumes "parent_wf (env_parent env)" "root_of (env_parent env) key r"
  shows "\<exists>env1. VarEnv_find key env = Inr (r, env1) \<and> env_map env1 = env_map env"
proof -
  from VarEnv_find_ok[OF assms(1), of key] obtain root env1 where
    f: "VarEnv_find key env = Inr (root, env1)" by blast
  from VarEnv_find_root[OF assms(1) f] have "root_of (env_parent env) key root"
    "env_map env1 = env_map env" by simp_all
  with assms(2) f show ?thesis by (auto dest: root_of_functional)
qed

lemma link_roots:
  assumes "parent_get par ra = ra" "parent_get par rb = rb" "ra \<noteq> rb"
  shows "root_of par k r \<Longrightarrow> root_of (AList.update rb ra par) k (if r = rb then ra else r)"
proof (induction rule: root_of.induct)
  case (root k)
  show ?case
  proof (cases "k = rb")
    case True
    have "root_of (AList.update rb ra par) ra ra"
      using assms by (auto intro: root_of.root simp: parent_get_update)
    then have "root_of (AList.update rb ra par) rb ra"
      using assms(3) by (auto intro: root_of.step simp: parent_get_update)
    with True show ?thesis by simp
  next
    case False
    with root show ?thesis by (auto intro: root_of.root simp: parent_get_update)
  qed
next
  case (step k r)
  from step(1) assms(2) have "k \<noteq> rb" by auto
  then have "parent_get (AList.update rb ra par) k = parent_get par k"
    by (simp add: parent_get_update)
  with step show ?case by (auto intro: root_of.step)
qed


lemma bind_root_binds:
  assumes "bind_root root n env = (v, env')"
  shows "map_of (env_map env') root = Some v \<and> env_parent env' = env_parent env"
  using assms
  by (auto simp: bind_root_def Let_def update_conv' split: option.splits if_splits)

lemma union_joins_roots:
  assumes "parent_wf (env_parent env)" "VarEnv_union ka kb env = Inr envU"
  shows "\<exists>ra. root_of (env_parent envU) ka ra \<and> root_of (env_parent envU) kb ra \<and>
           parent_wf (env_parent envU)"
proof -
  from VarEnv_find_ok[OF assms(1), of ka] obtain ra e1 where
    f1: "VarEnv_find ka env = Inr (ra, e1)" by blast
  note F1 = VarEnv_find_root[OF assms(1) f1]
  from F1 have w1: "parent_wf (env_parent e1)" by simp
  from VarEnv_find_ok[OF w1, of kb] obtain rb e2 where
    f2: "VarEnv_find kb e1 = Inr (rb, e2)" by blast
  note F2 = VarEnv_find_root[OF w1 f2]
  from F1 F2 have a2: "root_of (env_parent e2) ka ra" by blast
  from F2 have b2: "root_of (env_parent e2) kb rb" by blast
  from F1 F2 have ra2: "parent_get (env_parent e2) ra = ra" by blast
  from F2 have rb2: "parent_get (env_parent e2) rb = rb" by blast
  from F2 have w2: "parent_wf (env_parent e2)" by blast
  show ?thesis
  proof (cases "ra = rb")
    case True
    with assms(2) f1 f2 have "envU = e2" by (simp add: VarEnv_union_def)
    with a2 b2 w2 True show ?thesis by blast
  next
    case False
    with assms(2) f1 f2 have u: "env_parent envU = AList.update rb ra (env_parent e2)"
      by (auto simp: VarEnv_union_def)
    from link_roots[OF ra2 rb2 False a2] False have "root_of (env_parent envU) ka ra"
      unfolding u by simp
    moreover from link_roots[OF ra2 rb2 False b2] have "root_of (env_parent envU) kb ra"
      unfolding u by simp
    moreover from parent_wf_link[OF w2 ra2 False] have "parent_wf (env_parent envU)"
      unfolding u .
    ultimately show ?thesis by blast
  qed
qed

text \<open>
  After \<open>unify(a, b)\<close> the two columns resolve to one variable in the environment: a
  lookup of either column returns the variable that \<open>unify\<close> returned.
\<close>

lemma unify_then_lookup:
  assumes "parent_wf (env_parent env)"
    and "VarEnv_unify (Column r1 n1 a1) (Column r2 n2 a2) env = Inr (v, env')"
  shows "\<exists>e1 e2. VarEnv_lookup (Column r1 n1 a1) env' = Inr (Some v, e1) \<and>
                 VarEnv_lookup (Column r2 n2 a2) env' = Inr (Some v, e2)"
proof -
  let ?ka = "column_key r1 n1 a1" and ?kb = "column_key r2 n2 a2"
  from VarEnv_union_ok[OF assms(1), of ?ka ?kb] obtain envU where
    u: "VarEnv_union ?ka ?kb env = Inr envU" by blast
  from union_joins_roots[OF assms(1) u] obtain ra where
    r: "root_of (env_parent envU) ?ka ra" "root_of (env_parent envU) ?kb ra"
       "parent_wf (env_parent envU)" by blast
  from VarEnv_find_ok[OF r(3), of ?ka] obtain root envF where
    f: "VarEnv_find ?ka envU = Inr (root, envF)" by blast
  note F = VarEnv_find_root[OF r(3) f]
  from F r(1) have root: "root = ra" by (auto dest: root_of_functional)
  from F r have rf: "root_of (env_parent envF) ?ka ra" "root_of (env_parent envF) ?kb ra"
    "parent_wf (env_parent envF)" by blast+
  from assms(2) u f root have b: "bind_root ra n1 envF = (v, env')" by (simp add: Let_def)
  from bind_root_binds[OF b] have m: "map_of (env_map env') ra = Some v"
    and p: "env_parent env' = env_parent envF" by simp_all
  from rf p have w': "parent_wf (env_parent env')" "root_of (env_parent env') ?ka ra"
    "root_of (env_parent env') ?kb ra" by simp_all
  from VarEnv_find_of_root[OF w'(1) w'(2)] obtain e1 where
    "VarEnv_find ?ka env' = Inr (ra, e1)" "env_map e1 = env_map env'" by blast
  with m have l1: "VarEnv_lookup (Column r1 n1 a1) env' = Inr (Some v, e1)" by simp
  from VarEnv_find_of_root[OF w'(1) w'(3)] obtain e2 where
    "VarEnv_find ?kb env' = Inr (ra, e2)" "env_map e2 = env_map env'" by blast
  with m have l2: "VarEnv_lookup (Column r2 n2 a2) env' = Inr (Some v, e2)" by simp
  from l1 l2 show ?thesis by blast
qed

text \<open>
  C1. The environment does what the claim says (lemma \<open>unify_then_lookup\<close>), but the
  emitted text does not follow. In \<open>compile_conditional_delete\<close> the variables
  \<open>X0, X1\<close> are written into the head and the body atom before the condition is
  compiled: for the condition \<open>a = b\<close> on \<open>Pair(a, b)\<close> the two columns are unified,
  the comparison yields no literal, and the statement keeps \<open>X0\<close> and \<open>X1\<close> apart.
  In \<open>compile_query\<close> a where-condition is compiled from left to right: in
  \<open>b.y > 5 and a.x = b.y\<close> the column \<open>b.y\<close> is emitted as \<open>Y\<close> before it is
  unified with \<open>a.x\<close>, and as \<open>X\<close> in the body atom after.
\<close>

theorem unified_columns_emitted_apart:
  "compile_conditional_delete Pair
     (Comparison ''='' (Column ''pair'' ''a'' None) (Column ''pair'' ''b'' None)) =
     Inr ''-pair(X0, X1) <- pair(X0, X1)'' \<and>
   compile_query [SelectExpr (Column ''a'' ''x'' None)]
     (Some [RelationClass RelA, RelationClass RelB]) None
     (Some (And (Comparison ''>'' (Column ''b'' ''y'' None) (LiteralExpr (VInt 5)))
                (Comparison ''='' (Column ''a'' ''x'' None) (Column ''b'' ''y'' None))))
     None None None None =
     Inr (QueryStr ''?X <- a(X), b(X), Y > 5'')"
  by code_simp

end
